theory Spec2Isabelle
  imports Main "HOL-Library.Char_ord" "HOL-Library.List_Lexorder" "HOL-Library.Product_Lexorder"
begin

section \<open>Vorbis comment tags of Picard: picard/formats/vorbis.py\<close>

text \<open>
  The development follows \<^verbatim>\<open>src/picard/formats/vorbis.py\<close>. Text is modelled as
  \<^typ>\<open>string\<close> over ASCII. Exceptions are values of \<open>error\<close>: a function that can
  raise returns \<open>error + 'a\<close>, and \<open>Inl\<close> is the exception that leaves the function.
  Functions of other modules (base64, mutagen, re, picard.util, picard.coverart) are
  parameters, collected in the records \<open>load_env\<close> and \<open>save_env\<close>.
\<close>

datatype error =
    OggError          \<comment> \<open>\<^verbatim>\<open>mutagen.ogg.error("unknown Ogg audio format")\<close>\<close>
  | TypeError         \<comment> \<open>raised by \<^verbatim>\<open>base64.standard_b64decode\<close> on malformed input\<close>
  | FLACError         \<comment> \<open>raised by \<^verbatim>\<open>mutagen.flac.Picture\<close> on a malformed block\<close>
  | ValueError        \<comment> \<open>raised by \<^verbatim>\<open>float\<close> on a non-numeric string\<close>
  | IndexError        \<comment> \<open>list index out of range\<close>
  | ReError           \<comment> \<open>raised by \<^verbatim>\<open>re.search\<close> on an invalid pattern\<close>

subsection \<open>Container detection: \<^verbatim>\<open>_select_ogg_type\<close>\<close>

text \<open>
  \<^verbatim>\<open>results\<close> is the list of triples \<^verbatim>\<open>(score, option.__name__, option)\<close>;
  \<^verbatim>\<open>results.sort()\<close> orders the triples lexicographically: by score, then by class
  name (byte-wise string order), then by the class object itself, whose order Python 2 fixes
  but leaves arbitrary (here: the linear order of the type \<open>'o\<close>). The score
  \<^verbatim>\<open>option._File.score(filename, fileobj, header)\<close> and \<^verbatim>\<open>option.__name__\<close>
  are the parameters \<open>score\<close> and \<open>name\<close>. The result \<^verbatim>\<open>results[-1][2](filename)\<close>
  is given as the selected option.
\<close>

definition select_ogg_type ::
  "('o \<Rightarrow> int) \<Rightarrow> ('o \<Rightarrow> string) \<Rightarrow> ('o::linorder) list \<Rightarrow> error + 'o" where
  "select_ogg_type score name options =
     (let results = sort (map (\<lambda>option. (score option, name option, option)) options)
      in if results = [] \<or> fst (last results) \<le> 0 then Inl OggError
         else Inr (snd (snd (last results))))"

text \<open>
  The tie-break as the specification words it: among the options whose score is the highest,
  the one that comes last in the order of declaration.
\<close>

definition last_declared_highest :: "('o \<Rightarrow> int) \<Rightarrow> 'o list \<Rightarrow> 'o" where
  "last_declared_highest score options =
     last (filter (\<lambda>option. \<forall>other \<in> set options. score other \<le> score option) options)"

subsection \<open>Strings\<close>

definition startswith :: "string \<Rightarrow> string \<Rightarrow> bool" where
  "startswith s p = (take (length p) s = p)"

definition endswith :: "string \<Rightarrow> string \<Rightarrow> bool" where
  "endswith s p = (length p \<le> length s \<and> drop (length s - length p) s = p)"

text \<open>\<^verbatim>\<open>s.split(c, 1)\<close>: two parts around the first \<open>c\<close>, or \<open>s\<close> alone.\<close>

definition split1 :: "string \<Rightarrow> char \<Rightarrow> string list" where
  "split1 s c =
     (if c \<in> set s then [takeWhile (\<lambda>x. x \<noteq> c) s, tl (dropWhile (\<lambda>x. x \<noteq> c) s)]
      else [s])"

definition upper_char :: "char \<Rightarrow> char" where
  "upper_char c =
     (case map_of (zip ''abcdefghijklmnopqrstuvwxyz'' ''ABCDEFGHIJKLMNOPQRSTUVWXYZ'') c of
        Some u \<Rightarrow> u
      | None \<Rightarrow> c)"

definition upper :: "string \<Rightarrow> string" where
  "upper s = map upper_char s"

definition lower_char :: "char \<Rightarrow> char" where
  "lower_char c =
     (case map_of (zip ''ABCDEFGHIJKLMNOPQRSTUVWXYZ'' ''abcdefghijklmnopqrstuvwxyz'') c of
        Some l \<Rightarrow> l
      | None \<Rightarrow> c)"

definition lower :: "string \<Rightarrow> string" where
  "lower s = map lower_char s"

subsection \<open>Data\<close>

text \<open>
  \<^verbatim>\<open>file.tags\<close> is the dictionary of the container library (mutagen's comment
  dictionary). It is given by the entries that \<^verbatim>\<open>items()\<close> yields: a name, which
  the library hands out in lower case, with the list of its values, of which there is at
  least one. The library compares names without regard to case in \<^verbatim>\<open>in\<close>,
  \<^verbatim>\<open>d[k]\<close>, \<^verbatim>\<open>d[k] = v\<close>, \<^verbatim>\<open>update\<close> and \<^verbatim>\<open>del\<close>, and
  \<^verbatim>\<open>d[k]\<close> and \<^verbatim>\<open>get\<close> build a fresh list of the values on every call:
  changing that list does not change the dictionary. The order of the entries is not fixed
  by the library; here an entry that is set goes to the end.

  The dictionary \<^verbatim>\<open>tags\<close> that save builds is a plain one: a list of entries with
  distinct names, in the order of insertion.
\<close>

type_synonym raw_tags = "(string \<times> string list) list"

text \<open>\<^verbatim>\<open>name in file.tags\<close>\<close>

definition tags_contains :: "raw_tags \<Rightarrow> string \<Rightarrow> bool" where
  "tags_contains d name = (lower name \<in> set (map (\<lambda>(k, vs). lower k) d))"

text \<open>
  \<^verbatim>\<open>file.tags[name]\<close> and \<^verbatim>\<open>file.tags.get(name)\<close>: the values under the name,
  as a list of its own; \<open>None\<close> is the \<^verbatim>\<open>KeyError\<close> of the first and the
  \<^verbatim>\<open>None\<close> of the second.
\<close>

definition tags_getitem :: "raw_tags \<Rightarrow> string \<Rightarrow> string list option" where
  "tags_getitem d name =
     (if tags_contains d name
      then Some (concat (map snd (filter (\<lambda>(k, vs). lower k = lower name) d)))
      else None)"

text \<open>\<^verbatim>\<open>del file.tags[name]\<close>, for a name that is in the dictionary.\<close>

definition tags_delitem :: "raw_tags \<Rightarrow> string \<Rightarrow> raw_tags" where
  "tags_delitem d name = filter (\<lambda>(k, vs). lower k \<noteq> lower name) d"

text \<open>
  \<^verbatim>\<open>file.tags[name] = values\<close>: the old values of the name go, the new ones are
  appended; and \<^verbatim>\<open>file.tags.update(tags)\<close>, which sets every entry of \<^verbatim>\<open>tags\<close>.
\<close>

definition tags_set :: "raw_tags \<Rightarrow> string \<Rightarrow> string list \<Rightarrow> raw_tags" where
  "tags_set d name values =
     tags_delitem d name @ (if values = [] then [] else [(lower name, values)])"

definition tags_update :: "raw_tags \<Rightarrow> raw_tags \<Rightarrow> raw_tags" where
  "tags_update d tags = foldl (\<lambda>d (k, vs). tags_set d k vs) d tags"

record config =
  rating_user_email :: string
  rating_steps :: int
  clear_existing_tags :: bool

text \<open>A \<^verbatim>\<open>mutagen.flac.Picture\<close>, with the attributes the code reads and writes.\<close>

record picture =
  pic_type :: int
  pic_mime :: string
  pic_desc :: string
  pic_data :: string

text \<open>
  The opened container file: \<^verbatim>\<open>file.tags\<close> (\<open>None\<close> when the file has no tag
  block) and \<^verbatim>\<open>file.pictures\<close>.
\<close>

record vc_file =
  file_tags :: "raw_tags option"
  file_pictures :: "picture list"

text \<open>
  A \<^verbatim>\<open>TagCoverArtImage\<close> is represented by the keyword arguments it was built from;
  an argument that the call does not pass is \<open>None\<close>.
\<close>

record cover_image =
  ci_file :: string
  ci_tag :: string
  ci_types :: "string list option"
  ci_comment :: "string option"
  ci_support_types :: "bool option"
  ci_data :: string

text \<open>
  The state that \<^verbatim>\<open>_load\<close> builds: the calls of \<^verbatim>\<open>metadata.add\<close> in order,
  the image list of the metadata, and the calls of \<^verbatim>\<open>log.error\<close> as pairs of
  file name and exception text.
\<close>

record loaded =
  md_fields :: "(string \<times> string) list"
  md_images :: "cover_image list"
  log_error :: "(string \<times> string) list"

record util_env =
  sanitize_date :: "string \<Rightarrow> string"

text \<open>
  What \<^verbatim>\<open>_load\<close> calls from elsewhere.
  \<open>rating_to_internal steps value\<close> is
  \<^verbatim>\<open>unicode(int(round(float(value) * (steps - 1))))\<close>, or the exception it raises;
  \<open>standard_b64decode\<close> and \<open>flac_Picture\<close> return \<open>None\<close> when
  \<^verbatim>\<open>base64.standard_b64decode\<close> raises \<^verbatim>\<open>TypeError\<close> and when
  \<^verbatim>\<open>mutagen.flac.Picture\<close> rejects the block;
  \<open>cover_art_image_error\<close> gives the text of the \<^verbatim>\<open>CoverArtImageError\<close> that
  the constructor \<^verbatim>\<open>TagCoverArtImage\<close> raises for its arguments, if it raises one;
  \<open>info\<close> is the method \<^verbatim>\<open>_info\<close> of the format class.
\<close>

record load_env = util_env +
  rating_to_internal :: "int \<Rightarrow> string \<Rightarrow> error + string"
  standard_b64decode :: "string \<Rightarrow> string option"
  flac_Picture :: "string \<Rightarrow> picture option"
  types_from_id3 :: "int \<Rightarrow> string list"
  cover_art_image_error :: "cover_image \<Rightarrow> string option"
  info :: "loaded \<Rightarrow> loaded"

subsection \<open>Loading: \<^verbatim>\<open>VCommentFile._load\<close>\<close>

definition translate :: "(string \<times> string) list" where
  "translate =
     [(''musicbrainz_trackid'', ''musicbrainz_recordingid''),
      (''musicbrainz_releasetrackid'', ''musicbrainz_trackid'')]"

definition rtranslate :: "(string \<times> string) list" where
  "rtranslate = map (\<lambda>(k, v). (v, k)) translate"

text \<open>
  Modelled from the spec: \<^verbatim>\<open>picard.metadata.Metadata\<close> is not in the source at hand;
  the specification describes an ordered multi-valued store, to which \<^verbatim>\<open>add\<close>
  appends a value under a name.
\<close>

definition md_add :: "loaded \<Rightarrow> string \<Rightarrow> string \<Rightarrow> loaded" where
  "md_add st name value = st\<lparr>md_fields := md_fields st @ [(name, value)]\<rparr>"

text \<open>
  The arguments of the two kinds of call of \<^verbatim>\<open>TagCoverArtImage\<close>: with
  \<^verbatim>\<open>file\<close>, \<^verbatim>\<open>tag\<close>, \<^verbatim>\<open>types=types_from_id3(image.type)\<close>,
  \<^verbatim>\<open>comment=image.desc\<close>, \<^verbatim>\<open>support_types=True\<close> and
  \<^verbatim>\<open>data=image.data\<close> for a picture block, and with \<^verbatim>\<open>file\<close>,
  \<^verbatim>\<open>tag='COVERART'\<close> and \<^verbatim>\<open>data\<close> for a legacy value.
\<close>

definition picture_image_args :: "load_env \<Rightarrow> string \<Rightarrow> string \<Rightarrow> picture \<Rightarrow> cover_image" where
  "picture_image_args env filename tag pic =
     \<lparr>ci_file = filename, ci_tag = tag,
      ci_types = Some (types_from_id3 env (pic_type pic)),
      ci_comment = Some (pic_desc pic), ci_support_types = Some True,
      ci_data = pic_data pic\<rparr>"

definition coverart_image_args :: "string \<Rightarrow> string \<Rightarrow> cover_image" where
  "coverart_image_args filename bytes =
     \<lparr>ci_file = filename, ci_tag = ''COVERART'', ci_types = None,
      ci_comment = None, ci_support_types = None, ci_data = bytes\<rparr>"

text \<open>
  The block \<^verbatim>\<open>try: coverartimage = TagCoverArtImage(...)\<close>,
  \<^verbatim>\<open>except CoverArtImageError as e: log.error(...)\<close>,
  \<^verbatim>\<open>else: metadata.append_image(coverartimage)\<close>, which the source has three times.
\<close>

definition try_append_image :: "load_env \<Rightarrow> string \<Rightarrow> cover_image \<Rightarrow> loaded \<Rightarrow> loaded" where
  "try_append_image env filename args st =
     (case cover_art_image_error env args of
        Some e \<Rightarrow> st\<lparr>log_error := log_error st @ [(filename, e)]\<rparr>
      | None \<Rightarrow> st\<lparr>md_images := md_images st @ [args]\<rparr>)"

text \<open>
  The loop \<^verbatim>\<open>while count > 0 and start > 0\<close> of the performer and comment rule; the
  result is the final \<^verbatim>\<open>start\<close>. The loop starts at \<^verbatim>\<open>len(value) - 2\<close> and
  only counts down, so \<^verbatim>\<open>value[start]\<close> is always in range.
\<close>

function paren_scan :: "string \<Rightarrow> int \<Rightarrow> int \<Rightarrow> int" where
  "paren_scan value start count =
     (if count > 0 \<and> start > 0 then
        paren_scan value (start - 1)
          (if value ! nat start = CHR '')'' then count + 1
           else if value ! nat start = CHR ''('' then count - 1
           else count)
      else start)"
  by pat_completeness auto
termination
  by (relation "measure (\<lambda>(value, start, count). nat start)") auto

declare paren_scan.simps [simp del]

text \<open>
  The body of the loops \<^verbatim>\<open>for origname, values in file.tags.items(): for value in values\<close>;
  \<^verbatim>\<open>continue\<close> returns the state as it is. The names are those that
  \<^verbatim>\<open>items()\<close> yields, in lower case, so that the tests of the code on the lower-case
  literals \<^verbatim>\<open>totaltracks\<close> and \<^verbatim>\<open>totaldiscs\<close> are tests on these names.
\<close>

definition load_value ::
  "load_env \<Rightarrow> config \<Rightarrow> string \<Rightarrow> raw_tags \<Rightarrow> string \<Rightarrow> string \<Rightarrow> loaded \<Rightarrow> error + loaded" where
  "load_value env cfg filename tags origname value st =
     (if origname = ''date'' \<or> origname = ''originaldate'' then
        Inr (md_add st origname (sanitize_date env value))
      else if origname = ''performer'' \<or> origname = ''comment'' then
        (let name = origname @ '':'' in
         if endswith value '')'' then
           (let start = paren_scan value (int (length value) - 2) 1 in
            if start > 0 then
              Inr (md_add st
                     (name @ take (length value - 1 - nat (start + 2)) (drop (nat (start + 2)) value))
                     (take (nat start) value))
            else Inr (md_add st name value))
         else Inr (md_add st name value))
      else if startswith origname ''rating'' then
        (let email = (case split1 origname CHR '':'' of [name, email] \<Rightarrow> email | _ \<Rightarrow> []) in
         if email \<noteq> rating_user_email cfg then Inr st
         else (case rating_to_internal env (rating_steps cfg) value of
                 Inl e \<Rightarrow> Inl e
               | Inr rating \<Rightarrow> Inr (md_add st ''~rating'' rating)))
      else if origname = ''fingerprint'' \<and> startswith value ''MusicMagic Fingerprint'' then
        Inr (md_add st ''musicip_fingerprint'' (drop 22 value))
      else if origname = ''tracktotal'' then
        (if ''totaltracks'' \<in> fst ` set tags then Inr st
         else Inr (md_add st ''totaltracks'' value))
      else if origname = ''disctotal'' then
        (if ''totaldiscs'' \<in> fst ` set tags then Inr st
         else Inr (md_add st ''totaldiscs'' value))
      else if origname = ''metadata_block_picture'' then
        (case standard_b64decode env value of
           None \<Rightarrow> Inl TypeError
         | Some block \<Rightarrow>
             (case flac_Picture env block of
                None \<Rightarrow> Inl FLACError
              | Some pic \<Rightarrow>
                  Inr (try_append_image env filename
                         (picture_image_args env filename origname pic) st)))
      else (case map_of translate origname of
              Some name \<Rightarrow> Inr (md_add st name value)
            | None \<Rightarrow> Inr (md_add st origname value)))"

fun load_values ::
  "load_env \<Rightarrow> config \<Rightarrow> string \<Rightarrow> raw_tags \<Rightarrow> string \<Rightarrow> string list \<Rightarrow> loaded \<Rightarrow> error + loaded" where
  "load_values env cfg filename tags origname [] st = Inr st"
| "load_values env cfg filename tags origname (value # values) st =
     (case load_value env cfg filename tags origname value st of
        Inl e \<Rightarrow> Inl e
      | Inr st' \<Rightarrow> load_values env cfg filename tags origname values st')"

fun load_tags ::
  "load_env \<Rightarrow> config \<Rightarrow> string \<Rightarrow> raw_tags \<Rightarrow> raw_tags \<Rightarrow> loaded \<Rightarrow> error + loaded" where
  "load_tags env cfg filename tags [] st = Inr st"
| "load_tags env cfg filename tags ((origname, values) # rest) st =
     (case load_values env cfg filename tags origname values st of
        Inl e \<Rightarrow> Inl e
      | Inr st' \<Rightarrow> load_tags env cfg filename tags rest st')"

text \<open>\<^verbatim>\<open>for image in file.pictures\<close>, run when the class is the FLAC one.\<close>

fun load_pictures :: "load_env \<Rightarrow> string \<Rightarrow> picture list \<Rightarrow> loaded \<Rightarrow> loaded" where
  "load_pictures env filename [] st = st"
| "load_pictures env filename (pic # pics) st =
     load_pictures env filename pics
       (try_append_image env filename
          (picture_image_args env filename ''FLAC/PICTURE'' pic) st)"

text \<open>
  \<^verbatim>\<open>for data in file["COVERART"]\<close>: the decoding is inside the \<^verbatim>\<open>try\<close>, whose
  handler is for \<^verbatim>\<open>CoverArtImageError\<close> only.
\<close>

fun load_coverart :: "load_env \<Rightarrow> string \<Rightarrow> string list \<Rightarrow> loaded \<Rightarrow> error + loaded" where
  "load_coverart env filename [] st = Inr st"
| "load_coverart env filename (data # rest) st =
     (case standard_b64decode env data of
        None \<Rightarrow> Inl TypeError
      | Some bytes \<Rightarrow>
          load_coverart env filename rest
            (try_append_image env filename (coverart_image_args filename bytes) st))"

text \<open>
  \<^verbatim>\<open>_load\<close> up to the call of \<^verbatim>\<open>self._info\<close>; \<open>is_flac\<close> is
  \<^verbatim>\<open>self._File == mutagen.flac.FLAC\<close>. \<^verbatim>\<open>file["COVERART"]\<close> is
  \<^verbatim>\<open>file.tags["COVERART"]\<close>, and a missing entry is the \<^verbatim>\<open>KeyError\<close> that
  the code passes over.
\<close>

definition load_tags_and_images ::
  "load_env \<Rightarrow> config \<Rightarrow> bool \<Rightarrow> string \<Rightarrow> vc_file \<Rightarrow> error + loaded" where
  "load_tags_and_images env cfg is_flac filename file =
     (let tags = (case file_tags file of None \<Rightarrow> [] | Some t \<Rightarrow> t) in
      case load_tags env cfg filename tags tags \<lparr>md_fields = [], md_images = [], log_error = []\<rparr> of
        Inl e \<Rightarrow> Inl e
      | Inr st1 \<Rightarrow>
          (let st2 = (if is_flac then load_pictures env filename (file_pictures file) st1 else st1) in
           if \<not> tags_contains tags ''metadata_block_picture'' then
             (case tags_getitem tags ''COVERART'' of
                None \<Rightarrow> Inr st2
              | Some datas \<Rightarrow> load_coverart env filename datas st2)
           else Inr st2))"


subsection \<open>Saving: \<^verbatim>\<open>VCommentFile._save\<close>\<close>

text \<open>
  An element of \<^verbatim>\<open>metadata.images_to_be_saved_to_tags\<close>, with the attributes that
  \<^verbatim>\<open>_save\<close> reads.
\<close>

record tag_image =
  img_data :: string
  img_mimetype :: string
  img_comment :: string
  img_maintype :: string

text \<open>
  Modelled from the spec: \<^verbatim>\<open>picard.metadata.Metadata\<close> is not in the source at hand.
  The metadata that \<^verbatim>\<open>_save\<close> receives is given by what the code reads of it: the
  pairs of name and value that \<^verbatim>\<open>metadata.items()\<close> yields, the images to save and
  the names marked as deleted. A name is in the metadata when \<^verbatim>\<open>items()\<close> yields it.
\<close>

record metadata =
  md_items :: "(string \<times> string) list"
  images_to_be_saved_to_tags :: "tag_image list"
  deleted_tags :: "string list"

text \<open>
  What \<^verbatim>\<open>_save\<close> calls from elsewhere.
  \<open>rating_to_raw steps value\<close> is \<^verbatim>\<open>unicode(float(value) / (steps - 1))\<close>, or
  the exception it raises; \<open>metadata_getitem items name\<close> is \<^verbatim>\<open>metadata[name]\<close>;
  \<open>re_search pattern item\<close> tells whether \<^verbatim>\<open>re.search(pattern, item)\<close> finds a
  match, and is \<open>None\<close> when the pattern is not a regular expression.
\<close>

record save_env = util_env +
  rating_to_raw :: "int \<Rightarrow> string \<Rightarrow> error + string"
  metadata_getitem :: "(string \<times> string) list \<Rightarrow> string \<Rightarrow> string"
  image_type_as_id3_num :: "string \<Rightarrow> int"
  picture_write :: "picture \<Rightarrow> string"
  standard_b64encode :: "string \<Rightarrow> string"
  re_search :: "string \<Rightarrow> string \<Rightarrow> bool option"

text \<open>\<^verbatim>\<open>tags.setdefault(name, []).append(value)\<close>\<close>

fun setdefault_append :: "raw_tags \<Rightarrow> string \<Rightarrow> string \<Rightarrow> raw_tags" where
  "setdefault_append [] name value = [(name, [value])]"
| "setdefault_append ((k, vs) # rest) name value =
     (if k = name then (k, vs @ [value]) # rest
      else (k, vs) # setdefault_append rest name value)"

text \<open>
  The \<^verbatim>\<open>if\<close>/\<^verbatim>\<open>elif\<close> chain of the loop over \<^verbatim>\<open>metadata.items()\<close>:
  the name and the value as they stand when the chain is left, \<open>None\<close> for
  \<^verbatim>\<open>continue\<close>. Unpacking \<^verbatim>\<open>name.split(':', 1)\<close> into two names raises
  \<^verbatim>\<open>ValueError\<close> when there is one part only.
\<close>

definition save_name_value ::
  "save_env \<Rightarrow> config \<Rightarrow> string \<Rightarrow> string \<Rightarrow> error + (string \<times> string) option" where
  "save_name_value env cfg name value =
     (if name = ''~rating'' then
        (case rating_to_raw env (rating_steps cfg) value of
           Inl e \<Rightarrow> Inl e
         | Inr rating \<Rightarrow>
             Inr (Some (if rating_user_email cfg \<noteq> [] then ''rating:'' @ rating_user_email cfg
                        else ''rating'', rating)))
      else if startswith name ''~'' then Inr None
      else if startswith name ''lyrics:'' then Inr (Some (''lyrics'', value))
      else if name = ''date'' \<or> name = ''originaldate'' then
        Inr (Some (name, sanitize_date env value))
      else if startswith name ''performer:'' \<or> startswith name ''comment:'' then
        (case split1 name CHR '':'' of
           [base, desc] \<Rightarrow>
             Inr (Some (base, if desc \<noteq> [] then value @ '' ('' @ desc @ '')'' else value))
         | _ \<Rightarrow> Inl ValueError)
      else if name = ''musicip_fingerprint'' then
        Inr (Some (''fingerprint'', ''MusicMagic Fingerprint'' @ value))
      else (case map_of rtranslate name of
              Some raw \<Rightarrow> Inr (Some (raw, value))
            | None \<Rightarrow> Inr (Some (name, value))))"

text \<open>One round of the loop: the chain, then \<^verbatim>\<open>tags.setdefault(name.upper(), []).append(value)\<close>.\<close>

definition save_item ::
  "save_env \<Rightarrow> config \<Rightarrow> string \<Rightarrow> string \<Rightarrow> raw_tags \<Rightarrow> error + raw_tags" where
  "save_item env cfg name value tags =
     (case save_name_value env cfg name value of
        Inl e \<Rightarrow> Inl e
      | Inr None \<Rightarrow> Inr tags
      | Inr (Some (raw, v)) \<Rightarrow> Inr (setdefault_append tags (upper raw) v))"

fun save_items ::
  "save_env \<Rightarrow> config \<Rightarrow> (string \<times> string) list \<Rightarrow> raw_tags \<Rightarrow> error + raw_tags" where
  "save_items env cfg [] tags = Inr tags"
| "save_items env cfg ((name, value) # rest) tags =
     (case save_item env cfg name value tags of
        Inl e \<Rightarrow> Inl e
      | Inr tags' \<Rightarrow> save_items env cfg rest tags')"

text \<open>The two statements on \<^verbatim>\<open>totaltracks\<close> and \<^verbatim>\<open>totaldiscs\<close> after the loop.\<close>

definition save_totals :: "save_env \<Rightarrow> metadata \<Rightarrow> raw_tags \<Rightarrow> raw_tags" where
  "save_totals env md tags =
     (let tags1 =
            (if ''totaltracks'' \<in> fst ` set (md_items md) then
               setdefault_append tags ''TRACKTOTAL'' (metadata_getitem env (md_items md) ''totaltracks'')
             else tags)
      in if ''totaldiscs'' \<in> fst ` set (md_items md) then
           setdefault_append tags1 ''DISCTOTAL'' (metadata_getitem env (md_items md) ''totaldiscs'')
         else tags1)"

definition make_picture :: "save_env \<Rightarrow> tag_image \<Rightarrow> picture" where
  "make_picture env img =
     \<lparr>pic_type = image_type_as_id3_num env (img_maintype img), pic_mime = img_mimetype img,
      pic_desc = img_comment img, pic_data = img_data img\<rparr>"

text \<open>
  The loop over the images to save, on the pair of \<^verbatim>\<open>tags\<close> and the pictures of the
  file: \<^verbatim>\<open>file.add_picture\<close> for FLAC, a \<^verbatim>\<open>METADATA_BLOCK_PICTURE\<close> value
  otherwise.
\<close>

fun save_images ::
  "save_env \<Rightarrow> bool \<Rightarrow> tag_image list \<Rightarrow> raw_tags \<times> picture list \<Rightarrow> raw_tags \<times> picture list" where
  "save_images env is_flac [] (tags, pictures) = (tags, pictures)"
| "save_images env is_flac (img # imgs) (tags, pictures) =
     (if is_flac then save_images env is_flac imgs (tags, pictures @ [make_picture env img])
      else save_images env is_flac imgs
             (setdefault_append tags ''METADATA_BLOCK_PICTURE''
                (standard_b64encode env (picture_write env (make_picture env img))),
              pictures))"

text \<open>
  The dictionary \<^verbatim>\<open>tags\<close> as it is when \<^verbatim>\<open>file.tags.update(tags)\<close> is reached,
  with the pictures of the file.
\<close>

definition build_tags ::
  "save_env \<Rightarrow> config \<Rightarrow> bool \<Rightarrow> metadata \<Rightarrow> picture list \<Rightarrow> error + raw_tags \<times> picture list" where
  "build_tags env cfg is_flac md pictures =
     (case save_items env cfg (md_items md) [] of
        Inl e \<Rightarrow> Inl e
      | Inr tags \<Rightarrow>
          Inr (save_images env is_flac (images_to_be_saved_to_tags md)
                 (save_totals env md tags, pictures)))"

text \<open>\<^verbatim>\<open>_get_tag_name\<close>; \<open>None\<close> is Python's \<^verbatim>\<open>None\<close>. A split has a first part.\<close>

definition get_tag_name :: "config \<Rightarrow> string \<Rightarrow> string option" where
  "get_tag_name cfg name =
     (if name = ''~rating'' then
        (if rating_user_email cfg \<noteq> [] then Some (''rating:'' @ rating_user_email cfg)
         else Some ''rating'')
      else if startswith name ''~'' then None
      else if startswith name ''lyrics:'' then Some ''lyrics''
      else if startswith name ''performer:'' \<or> startswith name ''comment:'' then
        (case split1 name CHR '':'' of base # rest \<Rightarrow> Some base | [] \<Rightarrow> None)
      else if name = ''musicip_fingerprint'' then Some ''fingerprint''
      else (case map_of rtranslate name of
              Some raw \<Rightarrow> Some raw
            | None \<Rightarrow> Some name))"

text \<open>
  \<^verbatim>\<open>for item in file.tags.get(real_name): if re.search(tag_type, item): file.tags.get(real_name).remove(item)\<close>.
  Each \<^verbatim>\<open>get\<close> builds a list of its own from the values \<open>stored\<close> under the
  name: the loop walks one such list, and \<^verbatim>\<open>remove\<close> takes the item out of
  another one, which nothing refers to afterwards. The dictionary stays as it is; what the
  loop can leave behind is the exception of \<^verbatim>\<open>re.search\<close>.
\<close>

fun remove_matching :: "(string \<Rightarrow> bool option) \<Rightarrow> string list \<Rightarrow> string list \<Rightarrow> error + unit" where
  "remove_matching found stored [] = Inr ()"
| "remove_matching found stored (item # rest) =
     (case found item of
        None \<Rightarrow> Inl ReError
      | Some True \<Rightarrow>
          (let copy = remove1 item stored in remove_matching found stored rest)
      | Some False \<Rightarrow> remove_matching found stored rest)"

text \<open>
  One round of the loop over \<^verbatim>\<open>metadata.deleted_tags\<close>. The pattern is
  \<^verbatim>\<open>"\(%s\)" % tag.split(':', 1)[1]\<close>, and the index 1 raises \<^verbatim>\<open>IndexError\<close> when
  the tag has no colon. The lookup of the entry is also the test
  \<^verbatim>\<open>real_name in file.tags\<close>.
\<close>

definition delete_tag :: "save_env \<Rightarrow> config \<Rightarrow> string \<Rightarrow> raw_tags \<Rightarrow> error + raw_tags" where
  "delete_tag env cfg tag file_tags' =
     (case get_tag_name cfg tag of
        None \<Rightarrow> Inr file_tags'
      | Some real_name \<Rightarrow>
          (case tags_getitem file_tags' real_name of
             None \<Rightarrow> Inr file_tags'
           | Some stored \<Rightarrow>
               if real_name = [] then Inr file_tags'
               else if real_name = ''performer'' \<or> real_name = ''comment'' then
                 (case split1 tag CHR '':'' of
                    [base, role] \<Rightarrow>
                      (case remove_matching
                              (re_search env ([CHR 0x5C, CHR ''(''] @ role @ [CHR 0x5C, CHR '')'']))
                              stored stored of
                         Inl e \<Rightarrow> Inl e
                       | Inr u \<Rightarrow> Inr file_tags')
                  | _ \<Rightarrow> Inl IndexError)
               else Inr (tags_delitem file_tags' real_name)))"

fun delete_tags :: "save_env \<Rightarrow> config \<Rightarrow> string list \<Rightarrow> raw_tags \<Rightarrow> error + raw_tags" where
  "delete_tags env cfg [] file_tags' = Inr file_tags'"
| "delete_tags env cfg (tag # rest) file_tags' =
     (case delete_tag env cfg tag file_tags' of
        Inl e \<Rightarrow> Inl e
      | Inr file_tags'' \<Rightarrow> delete_tags env cfg rest file_tags'')"

text \<open>
  \<^verbatim>\<open>_save\<close> up to the call of \<^verbatim>\<open>file.save\<close>: the result is the file as it is
  handed to the writer, its tags as \<^verbatim>\<open>items()\<close> yields them.
\<close>

definition save :: "save_env \<Rightarrow> config \<Rightarrow> bool \<Rightarrow> vc_file \<Rightarrow> metadata \<Rightarrow> error + vc_file" where
  "save env cfg is_flac file md =
     (let existing = (case file_tags file of None \<Rightarrow> [] | Some t \<Rightarrow> t);
          kept = (if clear_existing_tags cfg then [] else existing);
          pictures =
            (if is_flac \<and> (clear_existing_tags cfg \<or> images_to_be_saved_to_tags md \<noteq> [])
             then [] else file_pictures file)
      in case build_tags env cfg is_flac md pictures of
           Inl e \<Rightarrow> Inl e
         | Inr (tags, pictures') \<Rightarrow>
             (case delete_tags env cfg (deleted_tags md) (tags_update kept tags) of
                Inl e \<Rightarrow> Inl e
              | Inr final \<Rightarrow> Inr \<lparr>file_tags = Some final, file_pictures = pictures'\<rparr>))"

subsection \<open>The matching parenthesis, as the specification words it\<close>

text \<open>
  For a value that ends in a closing parenthesis, \<open>depth value q\<close> is the nesting depth
  that the characters from position \<open>q\<close> up to the one before the final parenthesis leave
  open, the final parenthesis counted: one, plus the closing, minus the opening ones. The
  matching opening parenthesis is at the last position where the depth is zero.
\<close>

definition depth :: "string \<Rightarrow> nat \<Rightarrow> int" where
  "depth value q =
     1 + int (count_list (drop q (butlast value)) CHR '')'')
       - int (count_list (drop q (butlast value)) CHR ''('')"

definition matching_open :: "string \<Rightarrow> nat \<Rightarrow> bool" where
  "matching_open value p \<longleftrightarrow>
     p < length value - 1 \<and> depth value p = 0 \<and>
     (\<forall>q \<in> set [p + 1 ..< length value - 1]. 0 < depth value q)"

subsection \<open>The images that load tries to build, as the specification words it\<close>







subsection \<open>Literal substrings\<close>

text \<open>
  \<open>contains s sub\<close>: the text \<open>sub\<close> occurs in \<open>s\<close>. This is what
  \<^verbatim>\<open>re.search\<close> decides for a pattern that is an escaped literal, such as
  \<^verbatim>\<open>\(Piano\)\<close>.
\<close>

fun contains :: "string \<Rightarrow> string \<Rightarrow> bool" where
  "contains [] sub = (sub = [])"
| "contains (c # s) sub = (startswith (c # s) sub \<or> contains s sub)"

section \<open>Properties\<close>

subsection \<open>Facts about the detector\<close>

lemma sorted_le_last:
  fixes ys :: "('a::linorder) list"
  shows "sorted ys \<Longrightarrow> x \<in> set ys \<Longrightarrow> x \<le> last ys"
  by (induction ys) auto

lemma sort_eq_Nil:
  fixes xs :: "('a::linorder) list"
  shows "sort xs = [] \<longleftrightarrow> xs = []"
  by (metis length_0_conv length_sort)

lemma last_sort_greatest:
  fixes xs :: "('a::linorder) list"
  assumes "xs \<noteq> []"
  shows "last (sort xs) \<in> set xs" and "\<forall>x \<in> set xs. x \<le> last (sort xs)"
proof -
  have ne: "sort xs \<noteq> []"
    using assms by (simp add: sort_eq_Nil)
  have "last (sort xs) \<in> set (sort xs)"
    using ne by (rule last_in_set)
  then show "last (sort xs) \<in> set xs" by simp
  show "\<forall>x \<in> set xs. x \<le> last (sort xs)"
    using sorted_le_last [of "sort xs"] by simp
qed

lemma triple_le:
  fixes a :: int and b :: string and c :: "'o::linorder"
  shows "(a, b, c) \<le> (a', b', c') \<longleftrightarrow>
     a < a' \<or> a = a' \<and> (b < b' \<or> b = b' \<and> c \<le> c')"
  unfolding less_eq_prod_def by auto

lemma greatest_is_last_sort:
  fixes xs :: "('a::linorder) list"
  assumes "m \<in> set xs" and "\<forall>x \<in> set xs. x \<le> m"
  shows "last (sort xs) = m"
proof -
  have ne: "xs \<noteq> []" using assms(1) by auto
  have "last (sort xs) \<le> m"
    using last_sort_greatest(1) [OF ne] assms(2) by blast
  moreover have "m \<le> last (sort xs)"
    using last_sort_greatest(2) [OF ne] assms(1) by blast
  ultimately show ?thesis by simp
qed

lemma select_ogg_type_Inr_iff:
  fixes options :: "('o::linorder) list"
  shows "select_ogg_type score name options = Inr c \<longleftrightarrow>
           c \<in> set options \<and> 0 < score c \<and>
           (\<forall>other \<in> set options.
              score other < score c \<or>
              score other = score c \<and> (name other < name c \<or> name other = name c \<and> other \<le> c))"
    (is "?lhs \<longleftrightarrow> ?rhs")
proof -
  let ?key = "\<lambda>option. (score option, name option, option)"
  let ?rs = "map ?key options"
  show ?thesis
  proof (cases "options = []")
    case True
    then show ?thesis by (simp add: select_ogg_type_def)
  next
    case False
    then have ne: "?rs \<noteq> []" by simp
    have srt_ne: "sort ?rs \<noteq> []"
      using ne by (simp only: sort_eq_Nil not_False_eq_True)
    from last_sort_greatest(1) [OF ne]
    obtain w where w: "w \<in> set options" "last (sort ?rs) = ?key w" by auto
    have w_max: "?key other \<le> ?key w" if "other \<in> set options" for other
      using last_sort_greatest(2) [OF ne] w(2) that by simp
    have sel: "select_ogg_type score name options = (if score w \<le> 0 then Inl OggError else Inr w)"
      using srt_ne w(2) by (simp add: select_ogg_type_def Let_def)
    show ?thesis
    proof
      assume ?lhs
      then have cw: "c = w" and pos: "0 < score w"
        using sel by (simp_all split: if_splits)
      have "\<forall>other \<in> set options.
              score other < score w \<or>
              score other = score w \<and> (name other < name w \<or> name other = name w \<and> other \<le> w)"
        using w_max unfolding triple_le by blast
      then show ?rhs using cw pos w(1) by simp
    next
      assume r: ?rhs
      then have "\<forall>other \<in> set options. ?key other \<le> ?key c"
        unfolding triple_le by blast
      then have "\<forall>x \<in> set ?rs. x \<le> ?key c" by simp
      moreover have "?key c \<in> set ?rs" using r by simp
      ultimately have "last (sort ?rs) = ?key c"
        by (rule greatest_is_last_sort [rotated])
      then have "w = c" using w(2) by simp
      then show ?lhs using sel r by simp
    qed
  qed
qed

lemma select_ogg_type_returns:
  fixes options :: "('o::linorder) list"
  assumes "p \<in> set options" and "0 < score p"
  shows "\<exists>c. select_ogg_type score name options = Inr c"
proof -
  let ?key = "\<lambda>option. (score option, name option, option)"
  let ?rs = "map ?key options"
  have ne: "?rs \<noteq> []" using assms(1) by auto
  have srt_ne: "sort ?rs \<noteq> []"
    using ne by (simp only: sort_eq_Nil not_False_eq_True)
  from last_sort_greatest(1) [OF ne]
  obtain w where w: "w \<in> set options" "last (sort ?rs) = ?key w" by auto
  have "?key p \<le> ?key w"
    using last_sort_greatest(2) [OF ne] w(2) assms(1) by simp
  then have "score p \<le> score w" unfolding triple_le by linarith
  then have "0 < score w" using assms(2) by linarith
  then have "select_ogg_type score name options = Inr w"
    using srt_ne w(2) by (simp add: select_ogg_type_def Let_def)
  then show ?thesis by blast
qed

text \<open>
  C4 (as amended). The option selected is the one whose triple (score, class name, class) is
  the greatest, so its score is the highest and positive, and among the options that tie for
  the highest score the one with the greatest class name is taken, whatever the order of
  declaration; an option is selected whenever some score is positive.
\<close>

theorem select_ogg_type_greatest_score_then_name:
  fixes options :: "('o::linorder) list"
  shows "(select_ogg_type score name options = Inr c \<longleftrightarrow>
           c \<in> set options \<and> 0 < score c \<and>
           (\<forall>other \<in> set options.
              score other < score c \<or>
              score other = score c \<and> (name other < name c \<or> name other = name c \<and> other \<le> c))) \<and>
         ((\<exists>p \<in> set options. 0 < score p) \<longrightarrow>
            (\<exists>selected. select_ogg_type score name options = Inr selected))"
  using select_ogg_type_Inr_iff [of score name options c] select_ogg_type_returns [of _ options score name]
  by blast

theorem select_ogg_type_greatest_score_then_name_witness:
  "select_ogg_type (\<lambda>option. if option = ''A'' then 0 else 5) (\<lambda>option. option)
     [''A'', ''B'', ''C''] = Inr ''C''"
  using select_ogg_type_greatest_score_then_name
          [of "\<lambda>option. if option = ''A'' then 0 else 5" "\<lambda>option. option"
              "[''A'', ''B'', ''C'']" "''C''"]
  by simp

text \<open>
  C4 (counterexample). Two options that both score 5, declared in the order B, A: the
  last declared of the tied options is A, the option selected is B.
\<close>

theorem select_ogg_type_not_last_declared:
  "select_ogg_type (\<lambda>option. 5) (\<lambda>option. option) [''B'', ''A''] = Inr ''B'' \<and>
   last_declared_highest (\<lambda>option. 5 :: int) [''B'', ''A''] = ''A''"
  by (simp add: select_ogg_type_def last_declared_highest_def)

text \<open>
  C5. When no option has a positive score, and in particular when there is no option at all,
  detection raises \<^verbatim>\<open>mutagen.ogg.error\<close> and selects nothing.
\<close>

theorem select_ogg_type_unknown_format:
  fixes options :: "('o::linorder) list"
  assumes "\<forall>option \<in> set options. score option \<le> 0"
  shows "select_ogg_type score name options = Inl OggError"
proof (cases "options = []")
  case True
  then show ?thesis by (simp add: select_ogg_type_def)
next
  case False
  let ?rs = "map (\<lambda>option. (score option, name option, option)) options"
  from False have ne: "?rs \<noteq> []" by simp
  from last_sort_greatest(1) [OF ne]
  obtain w where "w \<in> set options" "last (sort ?rs) = (score w, name w, w)" by auto
  then have "fst (last (sort ?rs)) \<le> 0" using assms by simp
  then show ?thesis by (simp add: select_ogg_type_def Let_def)
qed

theorem select_ogg_type_unknown_format_witness:
  "select_ogg_type (\<lambda>option. if option = ''OggSpeexFile'' then - 1 else 0) (\<lambda>option. option)
     [''OggFLACFile'', ''OggSpeexFile'', ''OggVorbisFile''] = Inl OggError \<and>
   select_ogg_type (\<lambda>option. 7) (\<lambda>option. option) ([] :: string list) = Inl OggError"
  using select_ogg_type_unknown_format
          [of "[''OggFLACFile'', ''OggSpeexFile'', ''OggVorbisFile'']"
              "\<lambda>option. if option = ''OggSpeexFile'' then - 1 else 0" "\<lambda>option. option"]
        select_ogg_type_unknown_format [of "[] :: string list" "\<lambda>option. 7" "\<lambda>option. option"]
  by simp

subsection \<open>The performer and comment rule of load\<close>

lemma depth_beyond: "length v - 1 \<le> q \<Longrightarrow> depth v q = 1"
  by (simp add: depth_def)

lemma depth_step:
  assumes "q < length v - 1"
  shows "depth v q =
           (if v ! q = CHR '')'' then depth v (Suc q) + 1
            else if v ! q = CHR ''('' then depth v (Suc q) - 1
            else depth v (Suc q))"
proof -
  have q: "q < length (butlast v)" using assms by simp
  have "drop q (butlast v) = butlast v ! q # drop (Suc q) (butlast v)"
    using q by (rule Cons_nth_drop_Suc [symmetric])
  moreover have "butlast v ! q = v ! q"
    using q by (simp add: nth_butlast)
  ultimately show ?thesis by (simp add: depth_def)
qed

lemma matching_open_unique:
  assumes "matching_open v p" and "matching_open v p'"
  shows "p = p'"
proof -
  have no: "\<not> a < b" if "matching_open v a" and "matching_open v b" for a b
  proof
    assume "a < b"
    moreover have "b < length v - 1" using that(2) by (simp add: matching_open_def)
    ultimately have "b \<in> set [a + 1 ..< length v - 1]" by simp
    moreover have "\<forall>q \<in> set [a + 1 ..< length v - 1]. 0 < depth v q"
      using that(1) unfolding matching_open_def by blast
    ultimately have "0 < depth v b" by blast
    moreover have "depth v b = 0" using that(2) by (simp add: matching_open_def)
    ultimately show False by simp
  qed
  show ?thesis using no [OF assms] no [OF assms(2) assms(1)] by linarith
qed

lemma paren_scan_spec:
  assumes "- 1 \<le> start" and "start < int (length v) - 1"
    and "count = depth v (nat (start + 1))" and "0 \<le> count"
    and "\<forall>q. nat (start + 1) < q \<longrightarrow> 0 < depth v q"
  shows "(0 < paren_scan v start count \<longrightarrow> matching_open v (nat (paren_scan v start count) + 1)) \<and>
         (paren_scan v start count \<le> 0 \<longrightarrow> (\<forall>p. matching_open v p \<longrightarrow> p < 2))"
  using assms
proof (induction v start count rule: paren_scan.induct)
  case (1 v start count)
  show ?case
  proof (cases "count > 0 \<and> start > 0")
    case True
    let ?count' = "if v ! nat start = CHR '')'' then count + 1
           else if v ! nat start = CHR ''('' then count - 1 else count"
    have lt: "nat start < length v - 1" using True "1.prems"(2) by linarith
    have k1: "nat (start + 1) = Suc (nat start)" using True by linarith
    have k0: "nat (start - 1 + 1) = nat start" by simp
    have cnt: "count = depth v (Suc (nat start))"
      using "1.prems"(3) unfolding k1 .
    have c': "?count' = depth v (nat start)"
      unfolding depth_step [OF lt] cnt ..
    have c'': "?count' = depth v (nat (start - 1 + 1))"
      unfolding k0 by (rule c')
    have nonneg: "0 \<le> ?count'" using True by simp
    have later: "\<forall>q. nat (start - 1 + 1) < q \<longrightarrow> 0 < depth v q"
    proof (intro allI impI)
      fix q assume "nat (start - 1 + 1) < q"
      then have "nat start < q" unfolding k0 .
      then consider "q = Suc (nat start)" | "Suc (nat start) < q" by linarith
      then show "0 < depth v q"
      proof cases
        case 1
        then show ?thesis using cnt True by simp
      next
        case 2
        then show ?thesis using "1.prems"(5) unfolding k1 by blast
      qed
    qed
    have b1: "- 1 \<le> start - 1" using True by linarith
    have b2: "start - 1 < int (length v) - 1" using "1.prems"(2) by linarith
    have unfold: "paren_scan v start count = paren_scan v (start - 1) ?count'"
      using True by (subst paren_scan.simps) simp
    show ?thesis
      unfolding unfold by (rule "1.IH" [OF True b1 b2 c'' nonneg later])
  next
    case False
    have r: "paren_scan v start count = start"
      by (subst paren_scan.simps) (simp only: False if_False)
    show ?thesis
    proof (cases "0 < start")
      case True
      then have c0: "count = 0" using False "1.prems"(4) by linarith
      have k1: "nat (start + 1) = nat start + 1" using True by linarith
      have d0: "depth v (nat start + 1) = 0"
        using c0 "1.prems"(3) unfolding k1 by simp
      have "nat start + 1 < length v - 1"
      proof (rule ccontr)
        assume "\<not> nat start + 1 < length v - 1"
        then have "depth v (nat start + 1) = 1" by (simp add: depth_beyond)
        then show False using d0 by simp
      qed
      moreover have "\<forall>q \<in> set [nat start + 1 + 1 ..< length v - 1]. 0 < depth v q"
        using "1.prems"(5) unfolding k1 by simp
      ultimately have "matching_open v (nat start + 1)"
        using d0 unfolding matching_open_def by blast
      then show ?thesis unfolding r using True by simp
    next
      case nonpos: False
      have "p < 2" if "matching_open v p" for p
      proof (rule ccontr)
        assume "\<not> p < 2"
        then have "nat (start + 1) < p" using nonpos by linarith
        then have "0 < depth v p" using "1.prems"(5) by blast
        then show False using that by (simp add: matching_open_def)
      qed
      then show ?thesis unfolding r using nonpos by simp
    qed
  qed
qed


lemma load_value_performer_comment:
  assumes "origname = ''performer'' \<or> origname = ''comment''" and "endswith value '')''"
  shows "load_value env cfg filename tags origname value st =
           (if 0 < paren_scan value (int (length value) - 2) 1 then
              Inr (md_add st
                     (origname @ '':'' @
                        take (length value - 1 - nat (paren_scan value (int (length value) - 2) 1 + 2))
                          (drop (nat (paren_scan value (int (length value) - 2) 1 + 2)) value))
                     (take (nat (paren_scan value (int (length value) - 2) 1)) value))
            else Inr (md_add st (origname @ '':'') value))"
  using assms by (auto simp: load_value_def Let_def)

text \<open>
  C10. A performer or comment value that ends in a closing parenthesis is split only when the
  matching opening parenthesis is at index 2 or greater: then the role is the text between
  the two parentheses and the stored value is what precedes the character before the opening
  parenthesis, so that character is removed as well. When the matching parenthesis is at
  index 0 or 1 (or there is none), the name stays the bare one and the value is unchanged.
\<close>

theorem performer_comment_split_needs_index_2:
  assumes "origname = ''performer'' \<or> origname = ''comment''" and "endswith value '')''"
  shows "(\<forall>p. matching_open value p \<and> 2 \<le> p \<longrightarrow>
            load_value env cfg filename tags origname value st =
              Inr (md_add st
                     (origname @ '':'' @ take (length value - 2 - p) (drop (p + 1) value))
                     (take (p - 1) value))) \<and>
         ((\<forall>p. matching_open value p \<longrightarrow> p < 2) \<longrightarrow>
            load_value env cfg filename tags origname value st =
              Inr (md_add st (origname @ '':'') value))"
proof -
  define r where "r = paren_scan value (int (length value) - 2) 1"
  have len: "1 \<le> length value" using assms(2) by (simp add: endswith_def)
  have last_pos: "nat (int (length value) - 2 + 1) = length value - 1" using len by linarith
  have scan:
    "(0 < r \<longrightarrow> matching_open value (nat r + 1)) \<and>
     (r \<le> 0 \<longrightarrow> (\<forall>p. matching_open value p \<longrightarrow> p < 2))"
    unfolding r_def
  proof (rule paren_scan_spec)
    show "- 1 \<le> int (length value) - 2" using len by linarith
    show "int (length value) - 2 < int (length value) - 1" by linarith
    show "1 = depth value (nat (int (length value) - 2 + 1))"
      unfolding last_pos by (simp add: depth_beyond)
    show "0 \<le> (1::int)" by simp
    show "\<forall>q. nat (int (length value) - 2 + 1) < q \<longrightarrow> 0 < depth value q"
      unfolding last_pos by (simp add: depth_beyond)
  qed
  have lv: "load_value env cfg filename tags origname value st =
           (if 0 < r then
              Inr (md_add st
                     (origname @ '':'' @ take (length value - 1 - nat (r + 2)) (drop (nat (r + 2)) value))
                     (take (nat r) value))
            else Inr (md_add st (origname @ '':'') value))"
    unfolding r_def by (rule load_value_performer_comment [OF assms])
  have split: "load_value env cfg filename tags origname value st =
              Inr (md_add st
                     (origname @ '':'' @ take (length value - 2 - p) (drop (p + 1) value))
                     (take (p - 1) value))"
    if "matching_open value p" and "2 \<le> p" for p
  proof -
    have pos: "0 < r"
    proof (rule ccontr)
      assume "\<not> 0 < r"
      then have "p < 2" using scan that(1) by simp
      then show False using that(2) by simp
    qed
    then have "matching_open value (nat r + 1)" using scan by simp
    then have p: "p = nat r + 1" using that(1) by (rule matching_open_unique [rotated])
    have "nat (r + 2) = p + 1" "nat r = p - 1" "length value - 1 - nat (r + 2) = length value - 2 - p"
      using pos p by linarith+
    then show ?thesis using lv pos by simp
  qed
  have keep: "load_value env cfg filename tags origname value st =
              Inr (md_add st (origname @ '':'') value)"
    if "\<forall>p. matching_open value p \<longrightarrow> p < 2"
  proof -
    have "\<not> 0 < r"
    proof
      assume "0 < r"
      then have "matching_open value (nat r + 1)" using scan by simp
      then have "nat r + 1 < 2" using that by blast
      then show False using \<open>0 < r\<close> by linarith
    qed
    then show ?thesis using lv by simp
  qed
  show ?thesis using split keep by blast
qed

theorem performer_comment_split_needs_index_2_witness:
  "load_value
     \<lparr>sanitize_date = (\<lambda>s. s), rating_to_internal = (\<lambda>steps value. Inr value),
      standard_b64decode = (\<lambda>s. Some s), flac_Picture = (\<lambda>block. None),
      types_from_id3 = (\<lambda>n. []), cover_art_image_error = (\<lambda>args. None), info = (\<lambda>st. st)\<rparr>
     \<lparr>rating_user_email = ''user@example.com'', rating_steps = 6, clear_existing_tags = False\<rparr>
     ''a.ogg'' [] ''performer'' ''X (Piano)'' \<lparr>md_fields = [], md_images = [], log_error = []\<rparr>
   = Inr \<lparr>md_fields = [(''performer:Piano'', ''X'')], md_images = [], log_error = []\<rparr> \<and>
   load_value
     \<lparr>sanitize_date = (\<lambda>s. s), rating_to_internal = (\<lambda>steps value. Inr value),
      standard_b64decode = (\<lambda>s. Some s), flac_Picture = (\<lambda>block. None),
      types_from_id3 = (\<lambda>n. []), cover_art_image_error = (\<lambda>args. None), info = (\<lambda>st. st)\<rparr>
     \<lparr>rating_user_email = ''user@example.com'', rating_steps = 6, clear_existing_tags = False\<rparr>
     ''a.ogg'' [] ''performer'' ''X(Piano)'' \<lparr>md_fields = [], md_images = [], log_error = []\<rparr>
   = Inr \<lparr>md_fields = [(''performer:'', ''X(Piano)'')], md_images = [], log_error = []\<rparr> \<and>
   load_value
     \<lparr>sanitize_date = (\<lambda>s. s), rating_to_internal = (\<lambda>steps value. Inr value),
      standard_b64decode = (\<lambda>s. Some s), flac_Picture = (\<lambda>block. None),
      types_from_id3 = (\<lambda>n. []), cover_art_image_error = (\<lambda>args. None), info = (\<lambda>st. st)\<rparr>
     \<lparr>rating_user_email = ''user@example.com'', rating_steps = 6, clear_existing_tags = False\<rparr>
     ''a.ogg'' [] ''comment'' ''(Piano)'' \<lparr>md_fields = [], md_images = [], log_error = []\<rparr>
   = Inr \<lparr>md_fields = [(''comment:'', ''(Piano)'')], md_images = [], log_error = []\<rparr>"
proof -
  have open2: "matching_open ''X (Piano)'' 2 \<and> (2::nat) \<le> 2"
    by (simp add: matching_open_def depth_def upt_rec)
  have open1: "p < 2" if "matching_open ''X(Piano)'' p" for p
  proof -
    from that have "p < 7" and d: "depth ''X(Piano)'' p = 0"
      by (simp_all add: matching_open_def)
    then consider "p = 0" | "p = 1" | "p = 2" | "p = 3" | "p = 4" | "p = 5" | "p = 6"
      by linarith
    then show ?thesis using d by cases (simp_all add: depth_def)
  qed
  have open0: "p < 2" if "matching_open ''(Piano)'' p" for p
  proof -
    from that have "p < 6" and d: "depth ''(Piano)'' p = 0"
      by (simp_all add: matching_open_def)
    then consider "p = 0" | "p = 1" | "p = 2" | "p = 3" | "p = 4" | "p = 5"
      by linarith
    then show ?thesis using d by cases (simp_all add: depth_def)
  qed
  note main = performer_comment_split_needs_index_2
  show ?thesis
    using main [of "''performer''" "''X (Piano)''", THEN conjunct1, rule_format, OF _ _ open2]
      main [of "''performer''" "''X(Piano)''", THEN conjunct2, rule_format, OF _ _ open1]
      main [of "''comment''" "''(Piano)''", THEN conjunct2, rule_format, OF _ _ open0]
    by (simp add: endswith_def md_add_def)
qed

subsection \<open>Strings and dictionaries\<close>

lemma upper_char_idem: "upper_char (upper_char c) = upper_char c"
  by (simp add: upper_char_def)

lemma upper_idem: "upper (upper s) = upper s"
  by (simp add: upper_def upper_char_idem)

lemma upper_char_not_lower: "upper_char c \<notin> set ''abcdefghijklmnopqrstuvwxyz''"
  by (simp add: upper_char_def)

lemma upper_no_lower: "set (upper s) \<inter> set ''abcdefghijklmnopqrstuvwxyz'' = {}"
  using upper_char_not_lower by (auto simp: upper_def simp del: set_simps)

lemma upper_append: "upper (a @ b) = upper a @ upper b"
  by (simp add: upper_def)

lemma keys_setdefault_append:
  "fst ` set (setdefault_append tags name v) = insert name (fst ` set tags)"
  by (induction tags name v rule: setdefault_append.induct) auto

lemma map_of_setdefault_append:
  "map_of (setdefault_append tags name v) k =
     (if k = name then Some ((case map_of tags name of None \<Rightarrow> [] | Some vs \<Rightarrow> vs) @ [v])
      else map_of tags k)"
  by (induction tags name v rule: setdefault_append.induct) auto

lemma startswith_colon:
  assumes "startswith name (p @ '':'')"
  shows "CHR '':'' \<in> set name"
proof -
  have "take (length p + 1) name = p @ '':''" using assms by (simp add: startswith_def)
  then have "CHR '':'' \<in> set (take (length p + 1) name)" by simp
  then show ?thesis by (rule in_set_takeD)
qed

lemma split1_two: "c \<in> set s \<Longrightarrow> \<exists>a b. split1 s c = [a, b]"
  by (simp add: split1_def)

lemma split1_parts:
  assumes "c \<notin> set a"
  shows "split1 (a @ c # b) c = [a, b]"
proof -
  have "takeWhile (\<lambda>x. x \<noteq> c) (a @ c # b) = a"
    using assms by (induction a) auto
  moreover have "dropWhile (\<lambda>x. x \<noteq> c) (a @ c # b) = c # b"
    using assms by (induction a) auto
  ultimately show ?thesis by (simp add: split1_def)
qed

lemma split1_none: "c \<notin> set s \<Longrightarrow> split1 s c = [s]"
  by (simp add: split1_def)


subsection \<open>The tags that save builds\<close>

lemma save_name_value_returns:
  assumes "name = ''~rating'' \<longrightarrow> (\<exists>r. rating_to_raw env (rating_steps cfg) v = Inr r)"
  shows "\<exists>r. save_name_value env cfg name v = Inr r"
proof (cases "name = ''~rating''")
  case True
  then show ?thesis using assms by (auto simp: save_name_value_def)
next
  case False
  show ?thesis
  proof (cases "startswith name ''performer:'' \<or> startswith name ''comment:''")
    case True
    then have "CHR '':'' \<in> set name"
      using startswith_colon [of name "''performer''"] startswith_colon [of name "''comment''"]
      by auto
    then obtain a b where "split1 name CHR '':'' = [a, b]"
      using split1_two by blast
    then show ?thesis using False True by (auto simp: save_name_value_def)
  next
    case other: False
    then show ?thesis
      using False by (cases "map_of rtranslate name") (auto simp: save_name_value_def)
  qed
qed

lemma save_item_returns:
  assumes "name = ''~rating'' \<longrightarrow> (\<exists>r. rating_to_raw env (rating_steps cfg) v = Inr r)"
  shows "\<exists>tags'. save_item env cfg name v tags = Inr tags'"
proof -
  obtain r where "save_name_value env cfg name v = Inr r"
    using save_name_value_returns [OF assms] by blast
  then show ?thesis by (cases r) (auto simp: save_item_def)
qed

lemma save_items_returns:
  assumes "\<forall>v. (''~rating'', v) \<in> set items \<longrightarrow> (\<exists>r. rating_to_raw env (rating_steps cfg) v = Inr r)"
  shows "\<exists>tags'. save_items env cfg items tags = Inr tags'"
  using assms
proof (induction items arbitrary: tags)
  case Nil
  then show ?case by simp
next
  case (Cons item items)
  obtain name v where item: "item = (name, v)" by (cases item)
  have "name = ''~rating'' \<longrightarrow> (\<exists>r. rating_to_raw env (rating_steps cfg) v = Inr r)"
    using Cons.prems item by simp
  then obtain tags1 where one: "save_item env cfg name v tags = Inr tags1"
    using save_item_returns by blast
  have "\<exists>tags'. save_items env cfg items tags1 = Inr tags'"
    using Cons.prems by (intro Cons.IH) simp
  then show ?case using item one by simp
qed

lemma save_item_cases:
  assumes "save_item env cfg name v tags = Inr tags'"
  shows "tags' = tags \<or> (\<exists>raw w. tags' = setdefault_append tags (upper raw) w)"
  using assms by (auto simp: save_item_def split: sum.splits option.splits)

lemma save_item_upper:
  assumes "save_item env cfg name v tags = Inr tags'" and "\<forall>k \<in> fst ` set tags. upper k = k"
  shows "\<forall>k \<in> fst ` set tags'. upper k = k"
proof -
  from save_item_cases [OF assms(1)]
  consider "tags' = tags" | raw w where "tags' = setdefault_append tags (upper raw) w"
    by blast
  then show ?thesis
  proof cases
    case 1
    then show ?thesis using assms(2) by simp
  next
    case 2
    have "fst ` set tags' = insert (upper raw) (fst ` set tags)"
      unfolding 2 by (rule keys_setdefault_append)
    then show ?thesis using assms(2) by (simp add: upper_idem)
  qed
qed

lemma save_items_upper:
  assumes "save_items env cfg items tags = Inr tags'" and "\<forall>k \<in> fst ` set tags. upper k = k"
  shows "\<forall>k \<in> fst ` set tags'. upper k = k"
  using assms
proof (induction items arbitrary: tags)
  case Nil
  then show ?case by simp
next
  case (Cons item items)
  obtain name v where item: "item = (name, v)" by (cases item)
  from Cons.prems(1) item obtain tags1 where
    one: "save_item env cfg name v tags = Inr tags1" and
    rest: "save_items env cfg items tags1 = Inr tags'"
    by (auto split: sum.splits)
  show ?case
    using rest save_item_upper [OF one Cons.prems(2)] by (rule Cons.IH)
qed

lemma save_item_keeps:
  assumes "save_item env cfg name v tags = Inr tags'" and "map_of tags k = Some vs"
  shows "\<exists>ws. map_of tags' k = Some (vs @ ws)"
  using save_item_cases [OF assms(1)] assms(2)
  by (auto simp: map_of_setdefault_append simp del: setdefault_append.simps)

lemma save_items_keeps:
  assumes "save_items env cfg items tags = Inr tags'" and "map_of tags k = Some vs"
  shows "\<exists>ws. map_of tags' k = Some (vs @ ws)"
  using assms
proof (induction items arbitrary: tags vs)
  case Nil
  then show ?case by simp
next
  case (Cons item items)
  obtain name v where item: "item = (name, v)" by (cases item)
  from Cons.prems(1) item obtain tags1 where
    one: "save_item env cfg name v tags = Inr tags1" and
    rest: "save_items env cfg items tags1 = Inr tags'"
    by (auto split: sum.splits)
  obtain ws where "map_of tags1 k = Some (vs @ ws)"
    using save_item_keeps [OF one Cons.prems(2)] by blast
  then obtain ws' where "map_of tags' k = Some ((vs @ ws) @ ws')"
    using Cons.IH [OF rest] by blast
  then show ?case by simp
qed

lemma save_items_holds:
  assumes "save_items env cfg items tags = Inr tags'" and "(name, v) \<in> set items"
    and "\<And>tags0. save_item env cfg name v tags0 = Inr (setdefault_append tags0 raw w)"
  shows "\<exists>vs. map_of tags' raw = Some vs \<and> w \<in> set vs"
  using assms(1,2)
proof (induction items arbitrary: tags)
  case Nil
  then show ?case by simp
next
  case (Cons item items)
  obtain name' v' where item: "item = (name', v')" by (cases item)
  from Cons.prems(1) item obtain tags1 where
    one: "save_item env cfg name' v' tags = Inr tags1" and
    rest: "save_items env cfg items tags1 = Inr tags'"
    by (auto split: sum.splits)
  show ?case
  proof (cases "(name, v) = item")
    case True
    then have "tags1 = setdefault_append tags raw w"
      using one item assms(3) by simp
    then have "\<exists>vs. map_of tags1 raw = Some (vs @ [w])"
      by (simp add: map_of_setdefault_append)
    then obtain vs where "map_of tags1 raw = Some (vs @ [w])" by blast
    then obtain ws where "map_of tags' raw = Some ((vs @ [w]) @ ws)"
      using save_items_keeps [OF rest] by blast
    then show ?thesis by simp
  next
    case False
    then have "(name, v) \<in> set items" using Cons.prems(2) by simp
    then show ?thesis using rest by (intro Cons.IH)
  qed
qed

lemma save_images_map_of:
  assumes "k \<noteq> ''METADATA_BLOCK_PICTURE''"
  shows "map_of (fst (save_images env is_flac imgs (tags, pictures))) k = map_of tags k"
proof (induction imgs arbitrary: tags pictures)
  case Nil
  then show ?case by simp
next
  case (Cons img imgs)
  show ?case
  proof (cases is_flac)
    case True
    then show ?thesis using Cons.IH by simp
  next
    case False
    then show ?thesis
      using Cons.IH assms by (simp add: map_of_setdefault_append del: setdefault_append.simps)
  qed
qed

lemma save_images_keys:
  "fst ` set (fst (save_images env is_flac imgs (tags, pictures)))
     \<subseteq> insert ''METADATA_BLOCK_PICTURE'' (fst ` set tags)"
proof (induction imgs arbitrary: tags pictures)
  case Nil
  then show ?case by auto
next
  case (Cons img imgs)
  show ?case
  proof (cases is_flac)
    case True
    then show ?thesis using Cons.IH [of tags "pictures @ [make_picture env img]"] by simp
  next
    case False
    let ?tags1 = "setdefault_append tags ''METADATA_BLOCK_PICTURE''
                     (standard_b64encode env (picture_write env (make_picture env img)))"
    have "fst ` set (fst (save_images env is_flac imgs (?tags1, pictures)))
            \<subseteq> insert ''METADATA_BLOCK_PICTURE'' (fst ` set ?tags1)"
      by (rule Cons.IH)
    also have "fst ` set ?tags1 = insert ''METADATA_BLOCK_PICTURE'' (fst ` set tags)"
      by (rule keys_setdefault_append)
    finally show ?thesis using False by simp
  qed
qed

lemma save_totals_keys:
  "fst ` set (save_totals env md tags) \<subseteq> {''TRACKTOTAL'', ''DISCTOTAL''} \<union> fst ` set tags"
  by (auto simp: save_totals_def Let_def keys_setdefault_append simp del: setdefault_append.simps)


lemma save_totals_map_of:
  "map_of (save_totals env md tags) k =
     (if k = ''TRACKTOTAL'' \<and> ''totaltracks'' \<in> fst ` set (md_items md) then
        Some ((case map_of tags k of None \<Rightarrow> [] | Some vs \<Rightarrow> vs) @
              [metadata_getitem env (md_items md) ''totaltracks''])
      else if k = ''DISCTOTAL'' \<and> ''totaldiscs'' \<in> fst ` set (md_items md) then
        Some ((case map_of tags k of None \<Rightarrow> [] | Some vs \<Rightarrow> vs) @
              [metadata_getitem env (md_items md) ''totaldiscs''])
      else map_of tags k)"
  by (simp add: save_totals_def Let_def map_of_setdefault_append del: setdefault_append.simps)

lemma build_tags_eq:
  assumes "save_items env cfg (md_items md) [] = Inr tags0"
  shows "build_tags env cfg is_flac md pictures =
           Inr (save_images env is_flac (images_to_be_saved_to_tags md)
                  (save_totals env md tags0, pictures))"
  using assms by (simp add: build_tags_def)

lemma upper_literals:
  "upper ''TRACKTOTAL'' = ''TRACKTOTAL''" "upper ''DISCTOTAL'' = ''DISCTOTAL''"
  "upper ''METADATA_BLOCK_PICTURE'' = ''METADATA_BLOCK_PICTURE''"
  "upper ''rating:'' = ''RATING:''" "upper ''totaltracks'' = ''TOTALTRACKS''"
  by (simp_all add: upper_def upper_char_def)

text \<open>
  C9. Every name in the dictionary that save builds and hands to \<^verbatim>\<open>file.tags.update\<close>
  is upper-cased, whichever rule gave the name; with an email configured, a rating is
  written under \<^verbatim>\<open>RATING:\<close> followed by the email in upper case. (Save builds the
  dictionary whenever the conversion of every rating value succeeds.)
\<close>

theorem save_tag_names_upper_case:
  assumes "\<forall>v. (''~rating'', v) \<in> set (md_items md) \<longrightarrow>
               (\<exists>r. rating_to_raw env (rating_steps cfg) v = Inr r)"
  shows "\<exists>tags pictures'.
           build_tags env cfg is_flac md pictures = Inr (tags, pictures') \<and>
           (\<forall>name \<in> fst ` set tags.
              upper name = name \<and> set name \<inter> set ''abcdefghijklmnopqrstuvwxyz'' = {}) \<and>
           (rating_user_email cfg \<noteq> [] \<and> ''~rating'' \<in> fst ` set (md_items md) \<longrightarrow>
              ''RATING:'' @ upper (rating_user_email cfg) \<in> fst ` set tags)"
proof -
  obtain tags0 where s0: "save_items env cfg (md_items md) [] = Inr tags0"
    using save_items_returns [OF assms] by blast
  let ?tags1 = "save_totals env md tags0"
  obtain tags pictures' where
    res: "save_images env is_flac (images_to_be_saved_to_tags md) (?tags1, pictures) = (tags, pictures')"
    by (cases "save_images env is_flac (images_to_be_saved_to_tags md) (?tags1, pictures)")
  have built: "build_tags env cfg is_flac md pictures = Inr (tags, pictures')"
    using build_tags_eq [OF s0] res by simp
  have tags: "tags = fst (save_images env is_flac (images_to_be_saved_to_tags md) (?tags1, pictures))"
    using res by simp
  have up0: "\<forall>k \<in> fst ` set tags0. upper k = k"
    using s0 by (rule save_items_upper) simp
  have keys: "fst ` set tags \<subseteq>
                {''METADATA_BLOCK_PICTURE'', ''TRACKTOTAL'', ''DISCTOTAL''} \<union> fst ` set tags0"
    using save_images_keys [of env is_flac "images_to_be_saved_to_tags md" ?tags1 pictures]
      save_totals_keys [of env md tags0]
    unfolding tags by blast
  have up: "upper name = name" if "name \<in> fst ` set tags" for name
  proof -
    from that keys have
      "name \<in> {''METADATA_BLOCK_PICTURE'', ''TRACKTOTAL'', ''DISCTOTAL''} \<or> name \<in> fst ` set tags0"
      by blast
    then show ?thesis using up0 upper_literals(1-3) by auto
  qed
  have no_lower: "set name \<inter> set ''abcdefghijklmnopqrstuvwxyz'' = {}"
    if "name \<in> fst ` set tags" for name
    using upper_no_lower [of name] up [OF that] by simp
  have rating: "''RATING:'' @ upper (rating_user_email cfg) \<in> fst ` set tags"
    if email: "rating_user_email cfg \<noteq> []" and "''~rating'' \<in> fst ` set (md_items md)"
  proof -
    let ?key = "''RATING:'' @ upper (rating_user_email cfg)"
    from that(2) obtain v where v: "(''~rating'', v) \<in> set (md_items md)" by auto
    then obtain r where r: "rating_to_raw env (rating_steps cfg) v = Inr r"
      using assms by blast
    have "save_item env cfg ''~rating'' v t = Inr (setdefault_append t ?key r)" for t
      using r email by (simp add: save_item_def save_name_value_def upper_def upper_char_def)
    then obtain vs where "map_of tags0 ?key = Some vs"
      using save_items_holds [OF s0 v] by blast
    then have "map_of ?tags1 ?key = Some vs"
      by (simp add: save_totals_map_of)
    then have "map_of tags ?key = Some vs"
      unfolding tags by (simp add: save_images_map_of)
    then have "(?key, vs) \<in> set tags" by (rule map_of_SomeD)
    then show ?thesis by force
  qed
  show ?thesis using built up no_lower rating by blast
qed

theorem save_tag_names_upper_case_witness:
  "build_tags
     \<lparr>sanitize_date = (\<lambda>s. s), rating_to_raw = (\<lambda>steps v. Inr ''0.6''),
      metadata_getitem = (\<lambda>items name. ''12''), image_type_as_id3_num = (\<lambda>t. 3),
      picture_write = pic_data, standard_b64encode = (\<lambda>s. s),
      re_search = (\<lambda>pattern item. Some False)\<rparr>
     \<lparr>rating_user_email = ''user@example.com'', rating_steps = 6, clear_existing_tags = False\<rparr>
     False
     \<lparr>md_items = [(''~rating'', ''3''), (''title'', ''Song''), (''lyrics:en'', ''la'')],
      images_to_be_saved_to_tags =
        [\<lparr>img_data = ''PNG'', img_mimetype = ''image/png'', img_comment = [], img_maintype = ''front''\<rparr>],
      deleted_tags = []\<rparr>
     []
   = Inr ([(''RATING:USER@EXAMPLE.COM'', [''0.6'']), (''TITLE'', [''Song'']), (''LYRICS'', [''la'']),
           (''METADATA_BLOCK_PICTURE'', [''PNG''])], [])"
proof -
  have ok: "\<forall>v. (''~rating'', v) \<in> set [(''~rating'', ''3''), (''title'', ''Song''), (''lyrics:en'', ''la'')] \<longrightarrow>
               (\<exists>r. (Inr ''0.6'' :: error + string) = Inr r)"
    by simp
  have "\<exists>tags pictures'.
          build_tags
            \<lparr>sanitize_date = (\<lambda>s. s), rating_to_raw = (\<lambda>steps v. Inr ''0.6''),
             metadata_getitem = (\<lambda>items name. ''12''), image_type_as_id3_num = (\<lambda>t. 3),
             picture_write = pic_data, standard_b64encode = (\<lambda>s. s),
             re_search = (\<lambda>pattern item. Some False)\<rparr>
            \<lparr>rating_user_email = ''user@example.com'', rating_steps = 6, clear_existing_tags = False\<rparr>
            False
            \<lparr>md_items = [(''~rating'', ''3''), (''title'', ''Song''), (''lyrics:en'', ''la'')],
             images_to_be_saved_to_tags =
               [\<lparr>img_data = ''PNG'', img_mimetype = ''image/png'', img_comment = [], img_maintype = ''front''\<rparr>],
             deleted_tags = []\<rparr>
            [] = Inr (tags, pictures')"
    using save_tag_names_upper_case
            [of "\<lparr>md_items = [(''~rating'', ''3''), (''title'', ''Song''), (''lyrics:en'', ''la'')],
                  images_to_be_saved_to_tags =
                    [\<lparr>img_data = ''PNG'', img_mimetype = ''image/png'', img_comment = [], img_maintype = ''front''\<rparr>],
                  deleted_tags = []\<rparr>"
                "\<lparr>sanitize_date = (\<lambda>s. s), rating_to_raw = (\<lambda>steps v. Inr ''0.6''),
                  metadata_getitem = (\<lambda>items name. ''12''), image_type_as_id3_num = (\<lambda>t. 3),
                  picture_write = pic_data, standard_b64encode = (\<lambda>s. s),
                  re_search = (\<lambda>pattern item. Some False)\<rparr>"
                "\<lparr>rating_user_email = ''user@example.com'', rating_steps = 6, clear_existing_tags = False\<rparr>"
                False "[]"]
      ok
    by (simp only: metadata.simps save_env.simps util_env.simps config.simps) blast
  then show ?thesis
    by (simp add: build_tags_def save_item_def save_name_value_def save_totals_def make_picture_def
        startswith_def split1_def rtranslate_def translate_def upper_def upper_char_def)
qed


subsection \<open>Totals\<close>

lemma load_values_tracktotal:
  "load_values env cfg filename tags ''tracktotal'' vs st =
     (if ''totaltracks'' \<in> fst ` set tags then Inr st
      else Inr (st\<lparr>md_fields := md_fields st @ map (\<lambda>v. (''totaltracks'', v)) vs\<rparr>))"
proof (induction vs arbitrary: st)
  case Nil
  then show ?case by simp
next
  case (Cons v vs)
  have one: "load_value env cfg filename tags ''tracktotal'' v st =
               (if ''totaltracks'' \<in> fst ` set tags then Inr st
                else Inr (md_add st ''totaltracks'' v))"
    by (simp add: load_value_def startswith_def)
  show ?case
    by (simp add: one Cons.IH md_add_def)
qed

text \<open>
  C6. On load, the values of a raw \<^verbatim>\<open>tracktotal\<close> entry add nothing when the tag
  dictionary has a \<^verbatim>\<open>totaltracks\<close> entry, and are added under the internal name
  \<^verbatim>\<open>totaltracks\<close> otherwise. On save, when the metadata has \<^verbatim>\<open>totaltracks\<close>,
  the tags built have a \<^verbatim>\<open>TRACKTOTAL\<close> entry that ends with
  \<^verbatim>\<open>metadata["totaltracks"]\<close>, next to the \<^verbatim>\<open>TOTALTRACKS\<close> entry in which
  the loop over the items has put every value of \<^verbatim>\<open>totaltracks\<close>.
\<close>

theorem totals_handling:
  assumes "\<forall>v. (''~rating'', v) \<in> set (md_items md) \<longrightarrow>
               (\<exists>r. rating_to_raw senv (rating_steps cfg) v = Inr r)"
    and "''totaltracks'' \<in> fst ` set (md_items md)"
  shows "load_values lenv cfg' filename raw ''tracktotal'' vs st =
           (if ''totaltracks'' \<in> fst ` set raw then Inr st
            else Inr (st\<lparr>md_fields := md_fields st @ map (\<lambda>v. (''totaltracks'', v)) vs\<rparr>)) \<and>
         (\<exists>tags pictures' before generic.
            build_tags senv cfg is_flac md pictures = Inr (tags, pictures') \<and>
            map_of tags ''TRACKTOTAL'' =
              Some (before @ [metadata_getitem senv (md_items md) ''totaltracks'']) \<and>
            map_of tags ''TOTALTRACKS'' = Some generic \<and>
            (\<forall>v. (''totaltracks'', v) \<in> set (md_items md) \<longrightarrow> v \<in> set generic))"
proof -
  obtain tags0 where s0: "save_items senv cfg (md_items md) [] = Inr tags0"
    using save_items_returns [OF assms(1)] by blast
  let ?tags1 = "save_totals senv md tags0"
  obtain tags pictures' where
    res: "save_images senv is_flac (images_to_be_saved_to_tags md) (?tags1, pictures) = (tags, pictures')"
    by (cases "save_images senv is_flac (images_to_be_saved_to_tags md) (?tags1, pictures)")
  have built: "build_tags senv cfg is_flac md pictures = Inr (tags, pictures')"
    using build_tags_eq [OF s0] res by simp
  have tags: "tags = fst (save_images senv is_flac (images_to_be_saved_to_tags md) (?tags1, pictures))"
    using res by simp
  have through: "map_of tags k = map_of ?tags1 k" if "k \<noteq> ''METADATA_BLOCK_PICTURE''" for k
    unfolding tags using that by (rule save_images_map_of)
  define before where
    "before = (case map_of tags0 ''TRACKTOTAL'' of None \<Rightarrow> [] | Some ws \<Rightarrow> ws)"
  have "map_of ?tags1 ''TRACKTOTAL'' =
          Some (before @ [metadata_getitem senv (md_items md) ''totaltracks''])"
    using assms(2) by (simp add: save_totals_map_of before_def)
  then have tracktotal:
    "map_of tags ''TRACKTOTAL'' = Some (before @ [metadata_getitem senv (md_items md) ''totaltracks''])"
    by (simp add: through)
  have item: "save_item senv cfg ''totaltracks'' v t = Inr (setdefault_append t ''TOTALTRACKS'' v)"
    for v t
    by (simp add: save_item_def save_name_value_def startswith_def rtranslate_def translate_def
        upper_literals)
  have in_generic: "\<exists>ws. map_of tags ''TOTALTRACKS'' = Some ws \<and> v \<in> set ws"
    if mem: "(''totaltracks'', v) \<in> set (md_items md)" for v
  proof -
    obtain ws where "map_of tags0 ''TOTALTRACKS'' = Some ws" "v \<in> set ws"
      using save_items_holds [OF s0 mem item] by blast
    then show ?thesis by (simp add: through save_totals_map_of)
  qed
  obtain v0 where "(''totaltracks'', v0) \<in> set (md_items md)"
    using assms(2) by auto
  then obtain generic where generic: "map_of tags ''TOTALTRACKS'' = Some generic"
    using in_generic by blast
  have "v \<in> set generic" if "(''totaltracks'', v) \<in> set (md_items md)" for v
    using in_generic [OF that] generic by simp
  then have save_part:
    "\<exists>tags pictures' before generic.
        build_tags senv cfg is_flac md pictures = Inr (tags, pictures') \<and>
        map_of tags ''TRACKTOTAL'' =
          Some (before @ [metadata_getitem senv (md_items md) ''totaltracks'']) \<and>
        map_of tags ''TOTALTRACKS'' = Some generic \<and>
        (\<forall>v. (''totaltracks'', v) \<in> set (md_items md) \<longrightarrow> v \<in> set generic)"
    using built tracktotal generic by blast
  show ?thesis
    using load_values_tracktotal save_part by (rule conjI)
qed

theorem totals_handling_witness:
  "load_values
     \<lparr>sanitize_date = (\<lambda>s. s), rating_to_internal = (\<lambda>steps v. Inr v),
      standard_b64decode = (\<lambda>s. Some s), flac_Picture = (\<lambda>block. None),
      types_from_id3 = (\<lambda>n. []), cover_art_image_error = (\<lambda>args. None), info = (\<lambda>st. st)\<rparr>
     \<lparr>rating_user_email = ''user@example.com'', rating_steps = 6, clear_existing_tags = False\<rparr>
     ''a.ogg'' [(''tracktotal'', [''12'']), (''totaltracks'', [''10''])] ''tracktotal'' [''12'']
     \<lparr>md_fields = [], md_images = [], log_error = []\<rparr>
   = Inr \<lparr>md_fields = [], md_images = [], log_error = []\<rparr> \<and>
   load_values
     \<lparr>sanitize_date = (\<lambda>s. s), rating_to_internal = (\<lambda>steps v. Inr v),
      standard_b64decode = (\<lambda>s. Some s), flac_Picture = (\<lambda>block. None),
      types_from_id3 = (\<lambda>n. []), cover_art_image_error = (\<lambda>args. None), info = (\<lambda>st. st)\<rparr>
     \<lparr>rating_user_email = ''user@example.com'', rating_steps = 6, clear_existing_tags = False\<rparr>
     ''a.ogg'' [(''tracktotal'', [''12''])] ''tracktotal'' [''12'']
     \<lparr>md_fields = [], md_images = [], log_error = []\<rparr>
   = Inr \<lparr>md_fields = [(''totaltracks'', ''12'')], md_images = [], log_error = []\<rparr> \<and>
   build_tags
     \<lparr>sanitize_date = (\<lambda>s. s), rating_to_raw = (\<lambda>steps v. Inr v),
      metadata_getitem = (\<lambda>items name. ''12''), image_type_as_id3_num = (\<lambda>t. 3),
      picture_write = pic_data, standard_b64encode = (\<lambda>s. s),
      re_search = (\<lambda>pattern item. Some False)\<rparr>
     \<lparr>rating_user_email = ''user@example.com'', rating_steps = 6, clear_existing_tags = False\<rparr>
     False
     \<lparr>md_items = [(''title'', ''Song''), (''totaltracks'', ''12'')],
      images_to_be_saved_to_tags = [], deleted_tags = []\<rparr>
     []
   = Inr ([(''TITLE'', [''Song'']), (''TOTALTRACKS'', [''12'']), (''TRACKTOTAL'', [''12''])], [])"
proof -
  let ?senv = "\<lparr>sanitize_date = (\<lambda>s. s), rating_to_raw = (\<lambda>steps v. Inr v),
      metadata_getitem = (\<lambda>items name. ''12''), image_type_as_id3_num = (\<lambda>t. 3),
      picture_write = pic_data, standard_b64encode = (\<lambda>s. s),
      re_search = (\<lambda>pattern item. Some False)\<rparr>"
  let ?lenv = "\<lparr>sanitize_date = (\<lambda>s. s), rating_to_internal = (\<lambda>steps v. Inr v),
      standard_b64decode = (\<lambda>s. Some s), flac_Picture = (\<lambda>block. None),
      types_from_id3 = (\<lambda>n. []), cover_art_image_error = (\<lambda>args. None), info = (\<lambda>st. st)\<rparr>"
  let ?cfg = "\<lparr>rating_user_email = ''user@example.com'', rating_steps = 6, clear_existing_tags = False\<rparr>"
  let ?md = "\<lparr>md_items = [(''title'', ''Song''), (''totaltracks'', ''12'')],
      images_to_be_saved_to_tags = [], deleted_tags = []\<rparr>"
  let ?st = "\<lparr>md_fields = [], md_images = [], log_error = []\<rparr>"
  have ok: "\<forall>v. (''~rating'', v) \<in> set (md_items ?md) \<longrightarrow>
               (\<exists>r. rating_to_raw ?senv (rating_steps ?cfg) v = Inr r)"
    by simp
  have present: "''totaltracks'' \<in> fst ` set (md_items ?md)" by simp
  note main = totals_handling [OF ok present, where pictures = "[]" and is_flac = False
      and lenv = ?lenv and cfg' = ?cfg and filename = "''a.ogg''" and st = ?st and vs = "[''12'']"]
  have l1: "load_values ?lenv ?cfg ''a.ogg'' [(''tracktotal'', [''12'']), (''totaltracks'', [''10''])]
              ''tracktotal'' [''12''] ?st = Inr ?st"
    using main [where raw = "[(''tracktotal'', [''12'']), (''totaltracks'', [''10''])]", THEN conjunct1]
    by simp
  have l2: "load_values ?lenv ?cfg ''a.ogg'' [(''tracktotal'', [''12''])] ''tracktotal'' [''12''] ?st
              = Inr \<lparr>md_fields = [(''totaltracks'', ''12'')], md_images = [], log_error = []\<rparr>"
    using main [where raw = "[(''tracktotal'', [''12''])]", THEN conjunct1]
    by simp
  have "\<exists>tags pictures'. build_tags ?senv ?cfg False ?md [] = Inr (tags, pictures')"
    using main [where raw = "[]", THEN conjunct2] by blast
  then have s: "build_tags ?senv ?cfg False ?md []
      = Inr ([(''TITLE'', [''Song'']), (''TOTALTRACKS'', [''12'']), (''TRACKTOTAL'', [''12''])], [])"
    by (simp add: build_tags_def save_item_def save_name_value_def save_totals_def
        startswith_def split1_def rtranslate_def translate_def upper_def upper_char_def)
  show ?thesis using l1 l2 s by simp
qed

subsection \<open>Performer round trip and ratings of other users\<close>

lemma paren_scan_joe_barr: "paren_scan ''Joe Barr (Piano)'' 14 1 = 8"
  by (simp add: paren_scan.simps)

text \<open>
  C1. For the internal field \<^verbatim>\<open>performer:Piano\<close> with the value \<^verbatim>\<open>Joe Barr\<close>, the
  rules of save give the raw name \<^verbatim>\<open>performer\<close> and the raw value
  \<^verbatim>\<open>Joe Barr (Piano)\<close>, stored in the tags under the upper-cased name; the rules of
  load, on the raw name \<^verbatim>\<open>performer\<close> and that value, add the value
  \<^verbatim>\<open>Joe Barr\<close> under \<^verbatim>\<open>performer:Piano\<close> again.
\<close>

theorem performer_round_trip:
  "save_name_value senv cfg ''performer:Piano'' ''Joe Barr''
     = Inr (Some (''performer'', ''Joe Barr (Piano)'')) \<and>
   save_item senv cfg ''performer:Piano'' ''Joe Barr'' []
     = Inr [(upper ''performer'', [''Joe Barr (Piano)''])] \<and>
   upper ''performer'' = ''PERFORMER'' \<and>
   load_value lenv cfg' filename raw ''performer'' ''Joe Barr (Piano)'' st
     = Inr (md_add st ''performer:Piano'' ''Joe Barr'')"
proof -
  have chain: "save_name_value senv cfg ''performer:Piano'' ''Joe Barr''
     = Inr (Some (''performer'', ''Joe Barr (Piano)''))"
    by (simp add: save_name_value_def startswith_def split1_def)
  have item: "save_item senv cfg ''performer:Piano'' ''Joe Barr'' []
     = Inr [(upper ''performer'', [''Joe Barr (Piano)''])]"
    by (simp add: save_item_def chain)
  have up: "upper ''performer'' = ''PERFORMER''"
    by (simp add: upper_def upper_char_def)
  have reload: "load_value lenv cfg' filename raw ''performer'' ''Joe Barr (Piano)'' st
     = Inr (md_add st ''performer:Piano'' ''Joe Barr'')"
    by (simp add: load_value_performer_comment endswith_def paren_scan_joe_barr)
  show ?thesis using chain item up reload by simp
qed

text \<open>
  C7. A raw tag whose name starts with \<^verbatim>\<open>rating\<close> and whose email part, the text after
  the first colon or the empty text when the name has no colon, is not the configured
  \<^verbatim>\<open>rating_user_email\<close>, is passed over on load: the state stays as it is and
  nothing is raised.
\<close>

theorem rating_of_other_user_skipped:
  assumes "startswith origname ''rating''"
    and "(\<exists>base. CHR '':'' \<notin> set base \<and> origname = base @ '':'' @ email) \<or>
         (CHR '':'' \<notin> set origname \<and> email = [])"
    and "email \<noteq> rating_user_email cfg"
  shows "load_value env cfg filename tags origname v st = Inr st"
proof -
  have first: "origname \<noteq> ''date''" "origname \<noteq> ''originaldate''"
    "origname \<noteq> ''performer''" "origname \<noteq> ''comment''"
    using assms(1) by (auto simp: startswith_def)
  have "(case split1 origname CHR '':'' of [name, e] \<Rightarrow> e | _ \<Rightarrow> []) = email"
    using assms(2)
  proof
    assume "\<exists>base. CHR '':'' \<notin> set base \<and> origname = base @ '':'' @ email"
    then obtain base where "CHR '':'' \<notin> set base" "origname = base @ CHR '':'' # email"
      by auto
    then show ?thesis by (simp add: split1_parts)
  next
    assume "CHR '':'' \<notin> set origname \<and> email = []"
    then show ?thesis by (simp add: split1_none)
  qed
  then show ?thesis
    using assms(1,3) first by (simp add: load_value_def)
qed

theorem rating_of_other_user_skipped_witness:
  "load_value
     \<lparr>sanitize_date = (\<lambda>s. s), rating_to_internal = (\<lambda>steps v. Inr v),
      standard_b64decode = (\<lambda>s. Some s), flac_Picture = (\<lambda>block. None),
      types_from_id3 = (\<lambda>n. []), cover_art_image_error = (\<lambda>args. None), info = (\<lambda>st. st)\<rparr>
     \<lparr>rating_user_email = ''user@example.com'', rating_steps = 6, clear_existing_tags = False\<rparr>
     ''a.ogg'' [] ''rating:other@example.com'' ''0.8''
     \<lparr>md_fields = [(''title'', ''Song'')], md_images = [], log_error = []\<rparr>
   = Inr \<lparr>md_fields = [(''title'', ''Song'')], md_images = [], log_error = []\<rparr> \<and>
   load_value
     \<lparr>sanitize_date = (\<lambda>s. s), rating_to_internal = (\<lambda>steps v. Inr v),
      standard_b64decode = (\<lambda>s. Some s), flac_Picture = (\<lambda>block. None),
      types_from_id3 = (\<lambda>n. []), cover_art_image_error = (\<lambda>args. None), info = (\<lambda>st. st)\<rparr>
     \<lparr>rating_user_email = ''user@example.com'', rating_steps = 6, clear_existing_tags = False\<rparr>
     ''a.ogg'' [] ''rating'' ''0.8''
     \<lparr>md_fields = [(''title'', ''Song'')], md_images = [], log_error = []\<rparr>
   = Inr \<lparr>md_fields = [(''title'', ''Song'')], md_images = [], log_error = []\<rparr>"
proof -
  have with_email:
    "(\<exists>base. CHR '':'' \<notin> set base \<and> ''rating:other@example.com'' = base @ '':'' @ ''other@example.com'') \<or>
     (CHR '':'' \<notin> set ''rating:other@example.com'' \<and> ''other@example.com'' = [])"
    by (rule disjI1, rule exI [of _ "''rating''"]) simp
  have bare:
    "(\<exists>base. CHR '':'' \<notin> set base \<and> ''rating'' = base @ '':'' @ []) \<or>
     (CHR '':'' \<notin> set ''rating'' \<and> ([] :: string) = [])"
    by simp
  show ?thesis
    using rating_of_other_user_skipped [OF _ with_email, where cfg =
            "\<lparr>rating_user_email = ''user@example.com'', rating_steps = 6, clear_existing_tags = False\<rparr>"]
      rating_of_other_user_skipped [OF _ bare, where cfg =
            "\<lparr>rating_user_email = ''user@example.com'', rating_steps = 6, clear_existing_tags = False\<rparr>"]
    by (simp add: startswith_def)
qed

subsection \<open>Images on load\<close>






lemma md_add_effect:
  "md_images (md_add st name v) = md_images st" "log_error (md_add st name v) = log_error st"
  by (simp_all add: md_add_def)








lemma load_value_block_picture_eq:
  "load_value env cfg filename tags ''metadata_block_picture'' v st =
     (case standard_b64decode env v of
        None \<Rightarrow> Inl TypeError
      | Some block \<Rightarrow>
          (case flac_Picture env block of
             None \<Rightarrow> Inl FLACError
           | Some pic \<Rightarrow>
               Inr (try_append_image env filename
                      (picture_image_args env filename ''metadata_block_picture'' pic) st)))"
  by (simp add: load_value_def startswith_def)












subsection \<open>The legacy cover art\<close>

lemma try_append_image_set:
  "set (md_images (try_append_image env filename img st)) \<subseteq> insert img (set (md_images st))"
  by (simp add: try_append_image_def split: option.split) auto

lemma load_value_other_shape:
  assumes "origname \<noteq> ''metadata_block_picture''"
  shows "(\<exists>e. load_value env cfg filename tags origname v st = Inl e) \<or>
         (\<exists>st'. load_value env cfg filename tags origname v st = Inr st' \<and>
                md_images st' = md_images st)"
proof -
  consider (date) "origname = ''date'' \<or> origname = ''originaldate''"
    | (perf) "\<not> (origname = ''date'' \<or> origname = ''originaldate'')"
        "origname = ''performer'' \<or> origname = ''comment''"
    | (rating) "\<not> (origname = ''date'' \<or> origname = ''originaldate'')"
        "\<not> (origname = ''performer'' \<or> origname = ''comment'')" "startswith origname ''rating''"
    | (other) "\<not> (origname = ''date'' \<or> origname = ''originaldate'')"
        "\<not> (origname = ''performer'' \<or> origname = ''comment'')" "\<not> startswith origname ''rating''"
    by blast
  then show ?thesis
  proof cases
    case date
    then show ?thesis by (simp add: load_value_def md_add_effect)
  next
    case perf
    then show ?thesis by (simp add: load_value_def Let_def md_add_effect)
  next
    case rating
    show ?thesis
    proof (cases "rating_to_internal env (rating_steps cfg) v")
      case (Inl e)
      then show ?thesis using rating by (simp add: load_value_def Let_def md_add_effect)
    next
      case (Inr r)
      then show ?thesis using rating by (simp add: load_value_def Let_def md_add_effect)
    qed
  next
    case other
    show ?thesis
    proof (cases "map_of translate origname")
      case None
      then show ?thesis using other assms by (simp add: load_value_def md_add_effect)
    next
      case (Some name)
      then show ?thesis using other assms by (simp add: load_value_def md_add_effect)
    qed
  qed
qed

lemma load_value_other_images:
  assumes "origname \<noteq> ''metadata_block_picture''"
    and "load_value env cfg filename tags origname v st = Inr st'"
  shows "md_images st' = md_images st"
  using load_value_other_shape [OF assms(1), of env cfg filename tags v st] assms(2)
  by auto

lemma load_value_no_coverart:
  assumes "load_value env cfg filename tags origname v st = Inr st'"
    and "\<forall>img \<in> set (md_images st). ci_tag img \<noteq> ''COVERART''"
  shows "\<forall>img \<in> set (md_images st'). ci_tag img \<noteq> ''COVERART''"
proof (cases "origname = ''metadata_block_picture''")
  case False
  then show ?thesis using load_value_other_images [OF False assms(1)] assms(2) by simp
next
  case True
  have "\<exists>pic. st' =
      try_append_image env filename (picture_image_args env filename ''metadata_block_picture'' pic) st"
    using assms(1) unfolding True load_value_block_picture_eq
    by (auto split: option.splits)
  then obtain pic where
    "st' = try_append_image env filename (picture_image_args env filename ''metadata_block_picture'' pic) st"
    by blast
  then have "set (md_images st') \<subseteq>
      insert (picture_image_args env filename ''metadata_block_picture'' pic) (set (md_images st))"
    using try_append_image_set by simp
  moreover have "ci_tag (picture_image_args env filename ''metadata_block_picture'' pic) \<noteq> ''COVERART''"
    by (simp add: picture_image_args_def)
  ultimately show ?thesis using assms(2) by blast
qed

lemma load_values_no_coverart:
  assumes "load_values env cfg filename tags origname vs st = Inr st'"
    and "\<forall>img \<in> set (md_images st). ci_tag img \<noteq> ''COVERART''"
  shows "\<forall>img \<in> set (md_images st'). ci_tag img \<noteq> ''COVERART''"
  using assms
proof (induction vs arbitrary: st)
  case Nil
  then show ?case by simp
next
  case (Cons v vs)
  from Cons.prems(1) obtain st1 where
    one: "load_value env cfg filename tags origname v st = Inr st1" and
    rest: "load_values env cfg filename tags origname vs st1 = Inr st'"
    by (auto split: sum.splits)
  show ?case
    using rest load_value_no_coverart [OF one Cons.prems(2)] by (rule Cons.IH)
qed

lemma load_tags_no_coverart:
  assumes "load_tags env cfg filename tags rest st = Inr st'"
    and "\<forall>img \<in> set (md_images st). ci_tag img \<noteq> ''COVERART''"
  shows "\<forall>img \<in> set (md_images st'). ci_tag img \<noteq> ''COVERART''"
  using assms
proof (induction rest arbitrary: st)
  case Nil
  then show ?case by simp
next
  case (Cons entry rest)
  obtain name vs where entry: "entry = (name, vs)" by (cases entry)
  from Cons.prems(1) entry obtain st1 where
    one: "load_values env cfg filename tags name vs st = Inr st1" and
    rest: "load_tags env cfg filename tags rest st1 = Inr st'"
    by (auto split: sum.splits)
  show ?case
    using rest load_values_no_coverart [OF one Cons.prems(2)] by (rule Cons.IH)
qed

lemma load_pictures_no_coverart:
  assumes "\<forall>img \<in> set (md_images st). ci_tag img \<noteq> ''COVERART''"
  shows "\<forall>img \<in> set (md_images (load_pictures env filename pics st)). ci_tag img \<noteq> ''COVERART''"
  using assms
proof (induction pics arbitrary: st)
  case Nil
  then show ?case by simp
next
  case (Cons pic pics)
  let ?img = "picture_image_args env filename ''FLAC/PICTURE'' pic"
  have "ci_tag ?img \<noteq> ''COVERART''" by (simp add: picture_image_args_def)
  then have "\<forall>img \<in> set (md_images (try_append_image env filename ?img st)). ci_tag img \<noteq> ''COVERART''"
    using try_append_image_set [of env filename ?img st] Cons.prems by blast
  then show ?case using Cons.IH by simp
qed

lemma tags_contains_name: "name \<in> fst ` set d \<Longrightarrow> tags_contains d name"
  by (force simp: tags_contains_def)

text \<open>
  C3. When the tag dictionary has a \<^verbatim>\<open>metadata_block_picture\<close> entry, load does not
  run the \<^verbatim>\<open>COVERART\<close> step: its result is that of the loop over the tags followed
  by the pictures of a FLAC file, whatever the \<^verbatim>\<open>COVERART\<close> values are and however
  many images the entry gave, and no image of the result has the origin \<^verbatim>\<open>COVERART\<close>.
\<close>

theorem block_picture_entry_disables_coverart:
  assumes "tags = (case file_tags file of None \<Rightarrow> [] | Some t \<Rightarrow> t)"
    and "''metadata_block_picture'' \<in> fst ` set tags"
  shows "load_tags_and_images env cfg is_flac filename file =
           (case load_tags env cfg filename tags tags \<lparr>md_fields = [], md_images = [], log_error = []\<rparr> of
              Inl e \<Rightarrow> Inl e
            | Inr st \<Rightarrow>
                Inr (if is_flac then load_pictures env filename (file_pictures file) st else st)) \<and>
         (\<forall>st. load_tags_and_images env cfg is_flac filename file = Inr st \<longrightarrow>
                (\<forall>img \<in> set (md_images st). ci_tag img \<noteq> ''COVERART''))"
proof -
  let ?init = "\<lparr>md_fields = [], md_images = [], log_error = []\<rparr>"
  have eq: "load_tags_and_images env cfg is_flac filename file =
           (case load_tags env cfg filename tags tags ?init of
              Inl e \<Rightarrow> Inl e
            | Inr st \<Rightarrow>
                Inr (if is_flac then load_pictures env filename (file_pictures file) st else st))"
    unfolding load_tags_and_images_def assms(1) [symmetric] Let_def
    using tags_contains_name [OF assms(2)] by (simp split: sum.split)
  have "\<forall>img \<in> set (md_images st). ci_tag img \<noteq> ''COVERART''"
    if res: "load_tags_and_images env cfg is_flac filename file = Inr st" for st
  proof -
    from res eq obtain st1 where
      st1: "load_tags env cfg filename tags tags ?init = Inr st1" and
      st: "st = (if is_flac then load_pictures env filename (file_pictures file) st1 else st1)"
      by (auto split: sum.splits)
    have "\<forall>img \<in> set (md_images st1). ci_tag img \<noteq> ''COVERART''"
      using st1 by (rule load_tags_no_coverart) simp
    then show ?thesis
      unfolding st using load_pictures_no_coverart by simp
  qed
  then show ?thesis using eq by blast
qed

theorem block_picture_entry_disables_coverart_witness:
  "load_tags_and_images
     \<lparr>sanitize_date = (\<lambda>s. s), rating_to_internal = (\<lambda>steps v. Inr v),
      standard_b64decode = (\<lambda>s. if s = ''!'' then None else Some s),
      flac_Picture = (\<lambda>block. if block = ''?'' then None
         else Some \<lparr>pic_type = 3, pic_mime = ''image/png'', pic_desc = ''cover'', pic_data = block\<rparr>),
      types_from_id3 = (\<lambda>n. [''front'']),
      cover_art_image_error = (\<lambda>img. if ci_data img = ''bad'' then Some ''cannot identify'' else None),
      info = (\<lambda>st. st)\<rparr>
     \<lparr>rating_user_email = ''user@example.com'', rating_steps = 6, clear_existing_tags = False\<rparr>
     False ''a.ogg''
     \<lparr>file_tags = Some [(''metadata_block_picture'', [''bad'']), (''COVERART'', [''!'', ''one''])],
      file_pictures = []\<rparr>
   = Inr \<lparr>md_fields = [(''COVERART'', ''!''), (''COVERART'', ''one'')], md_images = [],
          log_error = [(''a.ogg'', ''cannot identify'')]\<rparr> \<and>
   load_tags_and_images
     \<lparr>sanitize_date = (\<lambda>s. s), rating_to_internal = (\<lambda>steps v. Inr v),
      standard_b64decode = (\<lambda>s. if s = ''!'' then None else Some s),
      flac_Picture = (\<lambda>block. if block = ''?'' then None
         else Some \<lparr>pic_type = 3, pic_mime = ''image/png'', pic_desc = ''cover'', pic_data = block\<rparr>),
      types_from_id3 = (\<lambda>n. [''front'']),
      cover_art_image_error = (\<lambda>img. if ci_data img = ''bad'' then Some ''cannot identify'' else None),
      info = (\<lambda>st. st)\<rparr>
     \<lparr>rating_user_email = ''user@example.com'', rating_steps = 6, clear_existing_tags = False\<rparr>
     False ''a.ogg''
     \<lparr>file_tags = Some [(''COVERART'', [''two'']), (''metadata_block_picture'', [''one''])],
      file_pictures = []\<rparr>
   = Inr \<lparr>md_fields = [(''COVERART'', ''two'')],
          md_images =
            [\<lparr>ci_file = ''a.ogg'', ci_tag = ''metadata_block_picture'', ci_types = Some [''front''],
              ci_comment = Some ''cover'', ci_support_types = Some True, ci_data = ''one''\<rparr>],
          log_error = []\<rparr>"
proof -
  let ?tags = "[(''metadata_block_picture'', [''bad'']), (''COVERART'', [''!'', ''one''])]"
  let ?file = "\<lparr>file_tags = Some ?tags, file_pictures = []\<rparr>"
  let ?tags' = "[(''COVERART'', [''two'']), (''metadata_block_picture'', [''one''])]"
  let ?file' = "\<lparr>file_tags = Some ?tags', file_pictures = []\<rparr>"
  have h1: "?tags = (case file_tags ?file of None \<Rightarrow> [] | Some t \<Rightarrow> t)" by simp
  have h2: "''metadata_block_picture'' \<in> fst ` set ?tags" by simp
  have h1': "?tags' = (case file_tags ?file' of None \<Rightarrow> [] | Some t \<Rightarrow> t)" by simp
  have h2': "''metadata_block_picture'' \<in> fst ` set ?tags'" by simp
  show ?thesis
    using block_picture_entry_disables_coverart [OF h1 h2, THEN conjunct1, of _ _ False "''a.ogg''"]
      block_picture_entry_disables_coverart [OF h1' h2', THEN conjunct1, of _ _ False "''a.ogg''"]
    by (simp add: load_value_def startswith_def translate_def
        try_append_image_def picture_image_args_def md_add_def)
qed

subsection \<open>Deleted tags\<close>

lemma remove_matching_result: "remove_matching found stored items = Inr u \<Longrightarrow> u = ()"
  by simp

text \<open>
  Deleting a field whose raw name is \<^verbatim>\<open>performer\<close> or \<^verbatim>\<open>comment\<close> never
  changes the tags of the file: whenever the round returns, the dictionary is the one it
  started with.
\<close>

lemma delete_tag_role_changes_nothing:
  assumes "get_tag_name cfg tag = Some real_name"
    and "real_name = ''performer'' \<or> real_name = ''comment''"
    and "delete_tag env cfg tag file_tags' = Inr result"
  shows "result = file_tags'"
  using assms
  by (auto simp: delete_tag_def split: option.splits list.splits sum.splits if_splits)

text \<open>
  C8 (the code at a failing input). The file has the performer values
  \<^verbatim>\<open>A (Piano)\<close>, \<^verbatim>\<open>B (Piano)\<close> and \<^verbatim>\<open>X (Guitar)\<close>, and
  \<^verbatim>\<open>performer:Piano\<close> is deleted. The loop finds the two values that contain
  \<^verbatim>\<open>(Piano)\<close>, but each \<^verbatim>\<open>remove\<close> acts on a list that
  \<^verbatim>\<open>file.tags.get\<close> has just built, not on the tags: all three values stay, where
  the claim leaves \<^verbatim>\<open>X (Guitar)\<close> alone.
\<close>

theorem delete_performer_role_removes_nothing:
  "save
     \<lparr>sanitize_date = (\<lambda>s. s), rating_to_raw = (\<lambda>steps v. Inr v),
      metadata_getitem = (\<lambda>items name. []), image_type_as_id3_num = (\<lambda>t. 3),
      picture_write = pic_data, standard_b64encode = (\<lambda>s. s),
      re_search = (\<lambda>pattern item.
         if pattern = [CHR 0x5C] @ ''(Piano'' @ [CHR 0x5C] @ '')''
         then Some (contains item ''(Piano)'') else None)\<rparr>
     \<lparr>rating_user_email = ''user@example.com'', rating_steps = 6, clear_existing_tags = False\<rparr>
     False
     \<lparr>file_tags = Some [(''performer'', [''A (Piano)'', ''B (Piano)'', ''X (Guitar)''])],
      file_pictures = []\<rparr>
     \<lparr>md_items = [], images_to_be_saved_to_tags = [], deleted_tags = [''performer:Piano'']\<rparr>
   = Inr \<lparr>file_tags = Some [(''performer'', [''A (Piano)'', ''B (Piano)'', ''X (Guitar)''])],
          file_pictures = []\<rparr> \<and>
   filter (\<lambda>item. \<not> contains item ''(Piano)'') [''A (Piano)'', ''B (Piano)'', ''X (Guitar)'']
   = [''X (Guitar)'']"
  by (simp add: save_def build_tags_def save_totals_def tags_update_def delete_tag_def
      get_tag_name_def startswith_def split1_def rtranslate_def translate_def
      tags_getitem_def tags_contains_def lower_def lower_char_def Let_def)

text \<open>
  An update replaces the values of a name that the file already has, whatever the case in
  which the name is written.
\<close>

lemma tags_update_replaces_name:
  "tags_update [(''title'', [''Old'']), (''artist'', [''Band''])] [(''TITLE'', [''New''])]
     = [(''artist'', [''Band'']), (''title'', [''New''])]"
  by (simp add: tags_update_def tags_set_def tags_delitem_def lower_def lower_char_def)

text \<open>
  For a deleted name whose raw name is neither \<^verbatim>\<open>performer\<close> nor
  \<^verbatim>\<open>comment\<close>, the whole entry of the raw name goes.
\<close>

lemma tags_delitem_absent:
  "\<not> tags_contains file_tags' real_name \<Longrightarrow> tags_delitem file_tags' real_name = file_tags'"
  by (induction file_tags') (auto simp: tags_delitem_def tags_contains_def)

lemma delete_tag_whole_entry:
  assumes "get_tag_name cfg tag = Some real_name" and "real_name \<noteq> []"
    and "real_name \<noteq> ''performer''" and "real_name \<noteq> ''comment''"
  shows "delete_tag env cfg tag file_tags' = Inr (tags_delitem file_tags' real_name)"
proof (cases "tags_contains file_tags' real_name")
  case False
  then show ?thesis
    using assms(1) by (simp add: delete_tag_def tags_getitem_def tags_delitem_absent)
next
  case True
  then show ?thesis using assms by (simp add: delete_tag_def tags_getitem_def)
qed


end
